theory Spec2Isabelle
  imports Complex_Main
begin

section \<open>SuikaPool: data model\<close>

text \<open>
  The game as written in the TypeScript source \<^verbatim>\<open>src/ts/script.ts\<close>; the two files
  under \<^verbatim>\<open>src/unnamed\<close> are its compiled JavaScript and a copy without comments, with
  the same game logic. (\<^verbatim>\<open>script.ts\<close> also carries, after a separator line, an older
  JavaScript variant without placement search and fill gauge, whose merge gives the new
  body the velocity \<open>(0, -2)\<close>; it is not modelled.) JavaScript numbers are modelled
  as exact reals: rounding of IEEE doubles, signed zeros and NaN are outside the model,
  except where a NaN can arise from a division by a zero canvas area, which is written
  out as \<open>None\<close>.
\<close>

record FruitType =
  rank :: nat
  radius :: real
  color :: string
  name :: string
  score :: int

text \<open>
  \<^verbatim>\<open>QueuedFruit extends FruitType\<close> with \<^verbatim>\<open>typeIndex\<close>; \<^verbatim>\<open>GameFruit extends FruitType\<close>
  with the same \<^verbatim>\<open>typeIndex\<close> and the position and physics fields, so it is modelled as
  an extension of \<open>QueuedFruit\<close>.
\<close>

record QueuedFruit = FruitType +
  typeIndex :: nat

record GameFruit = QueuedFruit +
  x :: real
  y :: real
  vx :: real
  vy :: real
  angle :: real

text \<open>The \<^verbatim>\<open>width\<close> and \<^verbatim>\<open>height\<close> attributes of the game canvas (unsigned integers).\<close>

record Canvas =
  width :: nat
  height :: nat

text \<open>
  The global variables of the script. \<open>gscore\<close> is the global \<^verbatim>\<open>score\<close> (the name
  \<open>score\<close> is taken by the field of \<open>FruitType\<close>); \<open>mousePos\<close> is the \<^verbatim>\<open>Position\<close>
  object as a pair; \<open>spawnTimers\<close> counts the \<^verbatim>\<open>setTimeout\<close> callbacks that are
  scheduled and have not yet run; \<open>finalScoreEl\<close> is the number last written to
  \<^verbatim>\<open>finalScoreEl.textContent\<close>. Two fields are history counters that the script does
  not have: \<open>updateCalls\<close> counts the calls of \<^verbatim>\<open>update\<close>, and \<open>gameOverFirings\<close>
  counts how often the game-over branch of \<^verbatim>\<open>drawFillGauge\<close> has been taken.
\<close>

record Game =
  gscore :: int
  gameOver :: bool
  fruits :: "GameFruit list"
  fruitToLaunch :: "GameFruit option"
  fruitInQueue :: QueuedFruit
  mousePos :: "real \<times> real"
  spawnTimers :: nat
  finalScoreEl :: int
  updateCalls :: nat
  gameOverFirings :: nat

definition fruitTypes :: "FruitType list" where
  "fruitTypes =
    [\<lparr>rank = 0, radius = 15, color = ''#8A2BE2'', name = ''Cherry'', score = 1\<rparr>,
     \<lparr>rank = 1, radius = 20, color = ''#B11D97'', name = ''Strawberry'', score = 2\<rparr>,
     \<lparr>rank = 2, radius = 28, color = ''#D80E4B'', name = ''Grape'', score = 3\<rparr>,
     \<lparr>rank = 3, radius = 35, color = ''#FF0000'', name = ''Dekopon'', score = 4\<rparr>,
     \<lparr>rank = 4, radius = 45, color = ''#FF5500'', name = ''Persimmon'', score = 5\<rparr>,
     \<lparr>rank = 5, radius = 55, color = ''#FFAA00'', name = ''Apple'', score = 6\<rparr>,
     \<lparr>rank = 6, radius = 65, color = ''#FFFF00'', name = ''Pear'', score = 7\<rparr>,
     \<lparr>rank = 7, radius = 75, color = ''#C8E208'', name = ''Peach'', score = 8\<rparr>,
     \<lparr>rank = 8, radius = 85, color = ''#90C511'', name = ''Pineapple'', score = 9\<rparr>,
     \<lparr>rank = 9, radius = 100, color = ''#59A819'', name = ''Melon'', score = 10\<rparr>,
     \<lparr>rank = 10, radius = 120, color = ''#228B22'', name = ''Watermelon'', score = 11\<rparr>]"

section \<open>Math helpers\<close>

text \<open>
  \<^verbatim>\<open>Math.atan2(b, a)\<close> on finite reals, by the quadrant of the point \<open>(a, b)\<close>, as
  ECMAScript defines it; \<^verbatim>\<open>Math.atan2(0, 0)\<close> is \<open>0\<close>.
\<close>

definition atan2 :: "real \<Rightarrow> real \<Rightarrow> real" where
  "atan2 b a =
    (if 0 < a then arctan (b / a)
     else if a < 0 \<and> 0 \<le> b then arctan (b / a) + pi
     else if a < 0 \<and> b < 0 then arctan (b / a) - pi
     else if 0 < b then pi / 2
     else if b < 0 then - (pi / 2)
     else 0)"

text \<open>\<^verbatim>\<open>array.splice(k, 1)\<close> for an index \<open>k \<ge> 0\<close>: nothing is removed when \<open>k\<close> is out of range.\<close>

definition splice1 :: "nat \<Rightarrow> 'a list \<Rightarrow> 'a list" where
  "splice1 k xs = take k xs @ drop (Suc k) xs"

section \<open>Fill monitor\<close>

text \<open>
  \<^verbatim>\<open>calculateFillPercentage\<close>. With a canvas of area zero the JavaScript division gives
  \<^verbatim>\<open>Infinity\<close> (then the minimum is 100) or, for \<^verbatim>\<open>0 / 0\<close>, \<^verbatim>\<open>NaN\<close>, which
  \<^verbatim>\<open>Math.min\<close> returns: \<open>None\<close> stands for that NaN.
\<close>

definition occupiedArea :: "GameFruit list \<Rightarrow> real" where
  "occupiedArea fs = foldl (\<lambda>acc fruit. acc + pi * radius fruit * radius fruit) 0 fs"

definition calculateFillPercentage :: "Canvas \<Rightarrow> GameFruit list \<Rightarrow> real option" where
  "calculateFillPercentage cv fs =
    (let totalCanvasArea = width cv * height cv
     in if totalCanvasArea = 0
        then (if occupiedArea fs = 0 then None else Some 100)
        else Some (min ((occupiedArea fs / real totalCanvasArea) * 100) 100))"

section \<open>Spawn planner\<close>

fun isOverlapping :: "GameFruit list \<Rightarrow> real \<Rightarrow> real \<Rightarrow> real \<Rightarrow> bool" where
  "isOverlapping [] px py r = False"
| "isOverlapping (fruit # fs) px py r =
    (let dx = px - x fruit;
         dy = py - y fruit;
         distance = sqrt (dx * dx + dy * dy)
     in if distance < r + radius fruit then True else isOverlapping fs px py r)"

text \<open>
  \<^verbatim>\<open>generateRandomFruit\<close>; \<open>u\<close> is the value that \<^verbatim>\<open>Math.random()\<close> returns, a number
  with \<open>0 \<le> u < 1\<close>. The spread copies the fields of the catalog entry.
\<close>

definition generateRandomFruit :: "real \<Rightarrow> QueuedFruit" where
  "generateRandomFruit u =
    (let typeIndex' = nat \<lfloor>u * 5\<rfloor>;
         t = fruitTypes ! typeIndex'
     in \<lparr>rank = rank t, radius = radius t, color = color t, name = name t, score = score t,
         typeIndex = typeIndex'\<rparr>)"

text \<open>
  The \<^verbatim>\<open>while (true)\<close> loop of \<^verbatim>\<open>prepareNextFruit\<close>: \<open>cx\<close> is the centre \<^verbatim>\<open>x\<close>
  (which the loop only assigns when it leaves), \<open>off\<close> is \<^verbatim>\<open>searchOffset\<close>, and the
  result is the value of \<^verbatim>\<open>x\<close> after the loop.
\<close>

function searchLoop :: "Canvas \<Rightarrow> GameFruit list \<Rightarrow> real \<Rightarrow> real \<Rightarrow> real \<Rightarrow> real \<Rightarrow> real" where
  "searchLoop cv fs cx cy r off =
    (let rightX = cx + off
     in if rightX + r < real (width cv) \<and> \<not> isOverlapping fs rightX cy r then rightX
        else
          let leftX = cx - off
          in if leftX - r > 0 \<and> \<not> isOverlapping fs leftX cy r then leftX
             else
               let off' = off + 5
               in if cx - off' < 0 \<and> cx + off' > real (width cv) then cx
                  else searchLoop cv fs cx cy r off')"
  by pat_completeness auto
termination
proof (relation "measure (\<lambda>(cv, fs, cx, cy, r, off). nat \<lceil>max cx (real (width cv) - cx) - off\<rceil>)")
  show "wf (measure (\<lambda>(cv, fs, cx, cy, r, off). nat \<lceil>max cx (real (width cv) - cx) - off\<rceil>))"
    by simp
next
  fix cv :: Canvas and fs :: "GameFruit list" and cx cy r off rightX leftX off' :: real
  assume off': "off' = off + 5"
    and go: "\<not> (cx - off' < 0 \<and> real (width cv) < cx + off')"
  have "off + 5 \<le> max cx (real (width cv) - cx)"
    using off' go by (auto simp: max_def)
  then have "\<lceil>max cx (real (width cv) - cx) - (off + 5)\<rceil> < \<lceil>max cx (real (width cv) - cx) - off\<rceil>"
    and "0 \<le> \<lceil>max cx (real (width cv) - cx) - (off + 5)\<rceil>"
    by linarith+
  then show "((cv, fs, cx, cy, r, off'), (cv, fs, cx, cy, r, off))
      \<in> measure (\<lambda>(cv, fs, cx, cy, r, off). nat \<lceil>max cx (real (width cv) - cx) - off\<rceil>)"
    using off' by simp
qed

declare searchLoop.simps [simp del]

text \<open>
  The same loop with a budget of iterations: \<open>None\<close> when the budget runs out before the
  loop is left.
\<close>

fun searchFuel :: "nat \<Rightarrow> Canvas \<Rightarrow> GameFruit list \<Rightarrow> real \<Rightarrow> real \<Rightarrow> real \<Rightarrow> real \<Rightarrow> real option" where
  "searchFuel 0 cv fs cx cy r off = None"
| "searchFuel (Suc n) cv fs cx cy r off =
    (let rightX = cx + off
     in if rightX + r < real (width cv) \<and> \<not> isOverlapping fs rightX cy r then Some rightX
        else
          let leftX = cx - off
          in if leftX - r > 0 \<and> \<not> isOverlapping fs leftX cy r then Some leftX
             else
               let off' = off + 5
               in if cx - off' < 0 \<and> cx + off' > real (width cv) then Some cx
                  else searchFuel n cv fs cx cy r off')"

definition prepareNextFruit :: "Canvas \<Rightarrow> real \<Rightarrow> Game \<Rightarrow> Game" where
  "prepareNextFruit cv u s =
    (let newFruitType = fruitInQueue s;
         s1 = s\<lparr>fruitInQueue := generateRandomFruit u\<rparr>;
         r = radius newFruitType;
         py = real (height cv) - 50;
         px = real (width cv) / 2;
         px' = (if isOverlapping (fruits s1) px py r
                then searchLoop cv (fruits s1) px py r 5 else px)
     in s1\<lparr>fruitToLaunch := Some
          \<lparr>rank = rank newFruitType, radius = radius newFruitType, color = color newFruitType,
           name = name newFruitType, score = score newFruitType,
           typeIndex = typeIndex newFruitType,
           x = px', y = py, vx = 0, vy = 0, angle = 0\<rparr>\<rparr>)"

section \<open>Launch controller\<close>

text \<open>
  The \<^verbatim>\<open>mousedown\<close> handler. The \<^verbatim>\<open>setTimeout\<close> call schedules one more run of
  \<^verbatim>\<open>prepareNextFruit\<close>.
\<close>

definition mousedown :: "Game \<Rightarrow> Game" where
  "mousedown s =
    (case fruitToLaunch s of
       None \<Rightarrow> s
     | Some f \<Rightarrow>
        (let dx = fst (mousePos s) - x f;
             dy = snd (mousePos s) - y f;
             distance = sqrt (dx * dx + dy * dy);
             speed = min (distance * 0.1) 30;
             ang = atan2 dy dx;
             f' = f\<lparr>vx := cos ang * speed, vy := sin ang * speed\<rparr>
         in s\<lparr>fruits := fruits s @ [f'], fruitToLaunch := None,
              spawnTimers := spawnTimers s + 1\<rparr>))"

section \<open>Simulator step\<close>

text \<open>
  The body of the \<^verbatim>\<open>forEach\<close> of \<^verbatim>\<open>update\<close>, statement by statement: friction,
  movement, rotation, the left and right walls, the top and bottom walls.
\<close>

definition applyFriction :: "GameFruit \<Rightarrow> GameFruit" where
  "applyFriction fruit = fruit\<lparr>vx := vx fruit * 0.98, vy := vy fruit * 0.98\<rparr>"

definition move :: "GameFruit \<Rightarrow> GameFruit" where
  "move fruit = fruit\<lparr>x := x fruit + vx fruit, y := y fruit + vy fruit\<rparr>"

definition rotate :: "GameFruit \<Rightarrow> GameFruit" where
  "rotate fruit = fruit\<lparr>angle := angle fruit + vx fruit * 0.05\<rparr>"

definition bounceX :: "Canvas \<Rightarrow> GameFruit \<Rightarrow> GameFruit" where
  "bounceX cv fruit =
    (if x fruit - radius fruit < 0
     then fruit\<lparr>x := radius fruit, vx := vx fruit * (- 0.7)\<rparr>
     else if x fruit + radius fruit > real (width cv)
     then fruit\<lparr>x := real (width cv) - radius fruit, vx := vx fruit * (- 0.7)\<rparr>
     else fruit)"

definition bounceY :: "Canvas \<Rightarrow> GameFruit \<Rightarrow> GameFruit" where
  "bounceY cv fruit =
    (if y fruit - radius fruit < 0
     then fruit\<lparr>y := radius fruit, vy := vy fruit * (- 0.7)\<rparr>
     else if y fruit + radius fruit > real (height cv)
     then fruit\<lparr>y := real (height cv) - radius fruit, vy := vy fruit * (- 0.7)\<rparr>
     else fruit)"

definition integrate :: "Canvas \<Rightarrow> GameFruit \<Rightarrow> GameFruit" where
  "integrate cv fruit = bounceY cv (bounceX cv (rotate (move (applyFriction fruit))))"

text \<open>
  Separation and velocity response of a colliding pair: the two objects \<^verbatim>\<open>f1\<close>,
  \<^verbatim>\<open>f2\<close> after the assignments that precede the merge check.
\<close>

definition resolveOverlap :: "GameFruit \<Rightarrow> GameFruit \<Rightarrow> GameFruit \<times> GameFruit" where
  "resolveOverlap f1 f2 =
    (let dx = x f2 - x f1;
         dy = y f2 - y f1;
         distance = sqrt (dx * dx + dy * dy);
         minDistance = radius f1 + radius f2;
         ang = atan2 dy dx;
         overlap = minDistance - distance;
         tx = cos ang * overlap;
         ty = sin ang * overlap;
         m1 = radius f1;
         m2 = radius f2;
         v1_new_x = (vx f1 * (m1 - m2) + 2 * m2 * vx f2) / (m1 + m2);
         v1_new_y = (vy f1 * (m1 - m2) + 2 * m2 * vy f2) / (m1 + m2);
         v2_new_x = (vx f2 * (m2 - m1) + 2 * m1 * vx f1) / (m1 + m2);
         v2_new_y = (vy f2 * (m2 - m1) + 2 * m1 * vy f1) / (m1 + m2)
     in (f1\<lparr>x := x f1 - tx / 2, y := y f1 - ty / 2,
             vx := v1_new_x * 0.95, vy := v1_new_y * 0.95\<rparr>,
         f2\<lparr>x := x f2 + tx / 2, y := y f2 + ty / 2,
             vx := v2_new_x * 0.95, vy := v2_new_y * 0.95\<rparr>))"

text \<open>The object \<^verbatim>\<open>newFruit\<close> that replaces a merging pair (after its separation and response).\<close>

definition mergedFruit :: "GameFruit \<Rightarrow> GameFruit \<Rightarrow> GameFruit" where
  "mergedFruit f1 f2 =
    (let newTypeIndex = typeIndex f1 + 1;
         newFruitType = fruitTypes ! newTypeIndex;
         m1 = radius f1;
         m2 = radius f2;
         newMass = radius newFruitType;
         newVx = ((m1 * vx f1 + m2 * vx f2) / newMass) * 0.5;
         newVy = ((m1 * vy f1 + m2 * vy f2) / newMass) * 0.5
     in \<lparr>rank = rank newFruitType, radius = radius newFruitType, color = color newFruitType,
         name = name newFruitType, score = score newFruitType,
         typeIndex = newTypeIndex,
         x = (x f1 + x f2) / 2, y = (y f1 + y f2) / 2,
         vx = newVx, vy = newVy, angle = 0\<rparr>)"

text \<open>
  The body of the inner \<^verbatim>\<open>for\<close> loop at the pair \<open>(i, j)\<close>; the flag says whether the
  body left the loop by \<^verbatim>\<open>break\<close>. The loops only visit \<open>i < j < length (fruits s)\<close>.
\<close>

definition collidePair :: "nat \<Rightarrow> nat \<Rightarrow> Game \<Rightarrow> Game \<times> bool" where
  "collidePair i j s =
    (let f1 = fruits s ! i;
         f2 = fruits s ! j;
         dx = x f2 - x f1;
         dy = y f2 - y f1;
         distance = sqrt (dx * dx + dy * dy);
         minDistance = radius f1 + radius f2
     in if distance < minDistance
        then
          let (f1', f2') = resolveOverlap f1 f2;
              fs' = (fruits s)[i := f1', j := f2']
          in if typeIndex f1' = typeIndex f2' \<and> typeIndex f1' < length fruitTypes - 1
             then
               let newTypeIndex = typeIndex f1' + 1;
                   newFruit = mergedFruit f1' f2'
               in (s\<lparr>fruits := splice1 i (splice1 j fs') @ [newFruit],
                     gscore := gscore s + score (fruitTypes ! newTypeIndex)\<rparr>, True)
             else (s\<lparr>fruits := fs'\<rparr>, False)
        else (s, False))"

lemma length_splice1:
  "length (splice1 k xs) = (if k < length xs then length xs - 1 else length xs)"
  by (auto simp: splice1_def)

lemma collidePair_length_le:
  "j < length (fruits s) \<Longrightarrow> length (fruits (fst (collidePair i j s))) \<le> length (fruits s)"
  unfolding collidePair_def Let_def
  by (auto simp: length_splice1 split: prod.splits if_splits)

lemma collidePair_length:
  "\<not> snd (collidePair i j s) \<Longrightarrow> length (fruits (fst (collidePair i j s))) = length (fruits s)"
  unfolding collidePair_def Let_def
  by (auto split: prod.splits if_splits)

function innerLoop :: "nat \<Rightarrow> nat \<Rightarrow> Game \<Rightarrow> Game" where
  "innerLoop i j s =
    (if j < length (fruits s)
     then (if snd (collidePair i j s) then fst (collidePair i j s)
           else innerLoop i (j + 1) (fst (collidePair i j s)))
     else s)"
  by pat_completeness auto
termination
  by (relation "measure (\<lambda>(i, j, s). length (fruits s) - j)")
     (auto simp: collidePair_length)

declare innerLoop.simps [simp del]

lemma innerLoop_length: "length (fruits (innerLoop i j s)) \<le> length (fruits s)"
proof (induction i j s rule: innerLoop.induct)
  case (1 i j s)
  show ?case
  proof (cases "j < length (fruits s)")
    case False
    then show ?thesis by (simp add: innerLoop.simps [of i j s])
  next
    case j: True
    show ?thesis
    proof (cases "snd (collidePair i j s)")
      case True
      with j collidePair_length_le [OF j, of i] show ?thesis
        by (simp add: innerLoop.simps [of i j s])
    next
      case False
      with 1 j collidePair_length [OF False] show ?thesis
        by (simp add: innerLoop.simps [of i j s])
    qed
  qed
qed

function outerLoop :: "nat \<Rightarrow> Game \<Rightarrow> Game" where
  "outerLoop i s =
    (if i < length (fruits s) then outerLoop (i + 1) (innerLoop i (i + 1) s) else s)"
  by pat_completeness auto
termination
proof (relation "measure (\<lambda>(i, s). length (fruits s) - i)")
  show "wf (measure (\<lambda>(i, s). length (fruits s) - i))" by simp
next
  fix i :: nat and s :: Game
  assume "i < length (fruits s)"
  then show "((i + 1, innerLoop i (i + 1) s), (i, s)) \<in> measure (\<lambda>(i, s). length (fruits s) - i)"
    using innerLoop_length [of i "i + 1" s] by simp
qed

declare outerLoop.simps [simp del]

definition update :: "Canvas \<Rightarrow> Game \<Rightarrow> Game" where
  "update cv s =
    outerLoop 0 (s\<lparr>fruits := map (integrate cv) (fruits s),
                   updateCalls := updateCalls s + 1\<rparr>)"

section \<open>Frames, restart and events\<close>

text \<open>The part of \<^verbatim>\<open>drawFillGauge\<close> that changes the state of the game.\<close>

definition drawFillGauge :: "Canvas \<Rightarrow> Game \<Rightarrow> Game" where
  "drawFillGauge cv s =
    (case calculateFillPercentage cv (fruits s) of
       None \<Rightarrow> s
     | Some fillPercentage \<Rightarrow>
         if fillPercentage \<ge> 90 \<and> \<not> gameOver s
         then s\<lparr>gameOver := True, finalScoreEl := gscore s,
                gameOverFirings := gameOverFirings s + 1\<rparr>
         else s)"

text \<open>
  One call of \<^verbatim>\<open>gameLoop\<close>; \<^verbatim>\<open>draw\<close> changes the state only through
  \<^verbatim>\<open>drawFillGauge\<close>. The call that \<^verbatim>\<open>requestAnimationFrame\<close> schedules is the next
  \<open>Frame\<close> event.
\<close>

definition gameLoop :: "Canvas \<Rightarrow> Game \<Rightarrow> Game" where
  "gameLoop cv s = (if gameOver s then s else drawFillGauge cv (update cv s))"

text \<open>\<^verbatim>\<open>init\<close>, with the two values of \<^verbatim>\<open>Math.random()\<close> that it consumes.\<close>

definition init :: "Canvas \<Rightarrow> real \<Rightarrow> real \<Rightarrow> Game \<Rightarrow> Game" where
  "init cv u1 u2 s =
    gameLoop cv
      (prepareNextFruit cv u2
        (s\<lparr>gscore := 0, gameOver := False, fruits := [],
           fruitInQueue := generateRandomFruit u1\<rparr>))"

text \<open>
  What can happen to a running game: the pointer moves, the mouse button goes down, a
  scheduled \<^verbatim>\<open>setTimeout\<close> callback runs, an animation frame runs \<^verbatim>\<open>gameLoop\<close>, the
  restart button runs \<^verbatim>\<open>init\<close>.
\<close>

datatype Event =
  MouseMove real real
  | MouseDown
  | SpawnTimeout real
  | Frame
  | Restart real real

fun isRestart :: "Event \<Rightarrow> bool" where
  "isRestart (Restart u1 u2) = True"
| "isRestart e = False"

fun randomsOk :: "Event \<Rightarrow> bool" where
  "randomsOk (SpawnTimeout u) = (0 \<le> u \<and> u < 1)"
| "randomsOk (Restart u1 u2) = (0 \<le> u1 \<and> u1 < 1 \<and> 0 \<le> u2 \<and> u2 < 1)"
| "randomsOk e = True"

fun step :: "Canvas \<Rightarrow> Event \<Rightarrow> Game \<Rightarrow> Game" where
  "step cv (MouseMove mx my) s = s\<lparr>mousePos := (mx, my)\<rparr>"
| "step cv MouseDown s = mousedown s"
| "step cv (SpawnTimeout u) s =
    (if 0 < spawnTimers s
     then prepareNextFruit cv u (s\<lparr>spawnTimers := spawnTimers s - 1\<rparr>) else s)"
| "step cv Frame s = gameLoop cv s"
| "step cv (Restart u1 u2) s = init cv u1 u2 s"

fun run :: "Canvas \<Rightarrow> Event list \<Rightarrow> Game \<Rightarrow> Game" where
  "run cv [] s = s"
| "run cv (e # es) s = run cv es (step cv e s)"

text \<open>
  The states a game can be in: \<^verbatim>\<open>init\<close> runs when the script loads (the globals it
  does not assign are arbitrary), and then events happen, with every value of
  \<^verbatim>\<open>Math.random()\<close> in \<open>[0, 1)\<close>.
\<close>

inductive reachable :: "Canvas \<Rightarrow> Game \<Rightarrow> bool" for cv :: Canvas where
  reach_init: "0 \<le> u1 \<Longrightarrow> u1 < 1 \<Longrightarrow> 0 \<le> u2 \<Longrightarrow> u2 < 1 \<Longrightarrow> reachable cv (init cv u1 u2 s0)"
| reach_step: "reachable cv s \<Longrightarrow> randomsOk e \<Longrightarrow> reachable cv (step cv e s)"

section \<open>Predicates of the statements\<close>

text \<open>
  The overlap test of the pairwise scan (centre distance below the sum of the radii), and
  a collection in which no pair \<open>i < j\<close> overlaps.
\<close>

definition overlapping :: "GameFruit \<Rightarrow> GameFruit \<Rightarrow> bool" where
  "overlapping f1 f2 \<longleftrightarrow>
    sqrt ((x f2 - x f1) * (x f2 - x f1) + (y f2 - y f1) * (y f2 - y f1)) < radius f1 + radius f2"

definition noOverlap :: "GameFruit list \<Rightarrow> bool" where
  "noOverlap fs \<longleftrightarrow> (\<forall>j < length fs. \<forall>i < j. \<not> overlapping (fs ! i) (fs ! j))"

text \<open>
  The pairwise scan as the sequence of its visits. \<open>integrated cv s\<close> is the state
  after the \<^verbatim>\<open>forEach\<close> of \<^verbatim>\<open>update\<close>; a visit \<open>(i, j, t)\<close> is one run of the body
  of the inner loop, at the indices \<open>i\<close>, \<open>j\<close> in the state \<open>t\<close>. \<open>innerVisits\<close> and
  \<open>outerVisits\<close> follow the two loops and list their visits in order.
\<close>

definition integrated :: "Canvas \<Rightarrow> Game \<Rightarrow> Game" where
  "integrated cv s = s\<lparr>fruits := map (integrate cv) (fruits s), updateCalls := updateCalls s + 1\<rparr>"

function innerVisits :: "nat \<Rightarrow> nat \<Rightarrow> Game \<Rightarrow> (nat \<times> nat \<times> Game) list" where
  "innerVisits i j s =
    (if j < length (fruits s)
     then (i, j, s) #
          (if snd (collidePair i j s) then []
           else innerVisits i (j + 1) (fst (collidePair i j s)))
     else [])"
  by pat_completeness auto
termination
  by (relation "measure (\<lambda>(i, j, s). length (fruits s) - j)")
     (auto simp: collidePair_length)

declare innerVisits.simps [simp del]

function outerVisits :: "nat \<Rightarrow> Game \<Rightarrow> (nat \<times> nat \<times> Game) list" where
  "outerVisits i s =
    (if i < length (fruits s)
     then innerVisits i (i + 1) s @ outerVisits (i + 1) (innerLoop i (i + 1) s)
     else [])"
  by pat_completeness auto
termination
proof (relation "measure (\<lambda>(i, s). length (fruits s) - i)")
  show "wf (measure (\<lambda>(i, s). length (fruits s) - i))" by simp
next
  fix i :: nat and s :: Game
  assume "i < length (fruits s)"
  then show "((i + 1, innerLoop i (i + 1) s), (i, s)) \<in> measure (\<lambda>(i, s). length (fruits s) - i)"
    using innerLoop_length [of i "i + 1" s] by simp
qed

declare outerVisits.simps [simp del]

definition scanVisits :: "Canvas \<Rightarrow> Game \<Rightarrow> (nat \<times> nat \<times> Game) list" where
  "scanVisits cv s = outerVisits 0 (integrated cv s)"

text \<open>
  The state that a visit leaves, whether a visit merges its pair (the pair overlaps and
  shares a tier index below 10), and the score value of the tier a merging visit creates.
\<close>

definition afterVisit :: "nat \<times> nat \<times> Game \<Rightarrow> Game" where
  "afterVisit v = (case v of (i, j, t) \<Rightarrow> fst (collidePair i j t))"

definition merges :: "nat \<times> nat \<times> Game \<Rightarrow> bool" where
  "merges v \<longleftrightarrow> (case v of (i, j, t) \<Rightarrow>
     overlapping (fruits t ! i) (fruits t ! j)
     \<and> typeIndex (fruits t ! i) = typeIndex (fruits t ! j)
     \<and> typeIndex (fruits t ! i) < 10)"

definition mergeScore :: "nat \<times> nat \<times> Game \<Rightarrow> int" where
  "mergeScore v = (case v of (i, j, t) \<Rightarrow> score (fruitTypes ! (typeIndex (fruits t ! i) + 1)))"







text \<open>
  A spawn candidate \<open>c\<close> is acceptable when its circle lies strictly inside the
  horizontal bounds and overlaps no active body; \<open>k\<close> is the first acceptable offset
  index when a candidate \<open>width/2 \<plusminus> 5k\<close> is acceptable and none is for a smaller index.
\<close>

definition acceptable :: "Canvas \<Rightarrow> GameFruit list \<Rightarrow> real \<Rightarrow> real \<Rightarrow> real \<Rightarrow> bool" where
  "acceptable cv fs py r c \<longleftrightarrow>
    0 < c - r \<and> c + r < real (width cv) \<and> \<not> isOverlapping fs c py r"

definition firstAcceptable :: "Canvas \<Rightarrow> GameFruit list \<Rightarrow> real \<Rightarrow> real \<Rightarrow> nat \<Rightarrow> bool" where
  "firstAcceptable cv fs py r k \<longleftrightarrow>
    1 \<le> k
    \<and> (\<forall>m. 1 \<le> m \<and> m < k \<longrightarrow>
          \<not> acceptable cv fs py r (real (width cv) / 2 + 5 * real m)
          \<and> \<not> acceptable cv fs py r (real (width cv) / 2 - 5 * real m))
    \<and> (acceptable cv fs py r (real (width cv) / 2 + 5 * real k)
        \<or> acceptable cv fs py r (real (width cv) / 2 - 5 * real k))"

text \<open>
  Every tier index is an index of the catalog; the pending and the queued body are of
  the five tiers that are spawned.
\<close>

definition tiersInCatalog :: "Game \<Rightarrow> bool" where
  "tiersInCatalog s \<longleftrightarrow>
    (\<forall>f \<in> set (fruits s). typeIndex f < length fruitTypes)
    \<and> (\<forall>f. fruitToLaunch s = Some f \<longrightarrow> typeIndex f < 5)
    \<and> typeIndex (fruitInQueue s) < 5"

section \<open>Concrete inputs\<close>

text \<open>
  A body of catalog tier \<open>k\<close> at a position with a velocity, a game with given bodies,
  pending body and pointer position, and a play field of 400 by 600.
\<close>

definition bodyOf :: "nat \<Rightarrow> real \<Rightarrow> real \<Rightarrow> real \<Rightarrow> real \<Rightarrow> GameFruit" where
  "bodyOf k px py pvx pvy =
    \<lparr>rank = rank (fruitTypes ! k), radius = radius (fruitTypes ! k),
     color = color (fruitTypes ! k), name = name (fruitTypes ! k),
     score = score (fruitTypes ! k),
     typeIndex = k, x = px, y = py, vx = pvx, vy = pvy, angle = 0\<rparr>"

definition gameOf :: "GameFruit list \<Rightarrow> GameFruit option \<Rightarrow> real \<times> real \<Rightarrow> Game" where
  "gameOf fs p m =
    \<lparr>gscore = 0, gameOver = False, fruits = fs, fruitToLaunch = p,
     fruitInQueue = generateRandomFruit 0, mousePos = m, spawnTimers = 0,
     finalScoreEl = 0, updateCalls = 0, gameOverFirings = 0\<rparr>"

definition field :: Canvas where
  "field = \<lparr>width = 400, height = 600\<rparr>"


text \<open>Two cherries 10 units apart, at rest (they overlap).\<close>

definition cherryPair :: Game where
  "cherryPair = gameOf [bodyOf 0 100 300 0 0, bodyOf 0 110 300 0 0] None (0, 0)"

text \<open>A watermelon alone on a field of 100 by 100, which it more than fills.\<close>

definition smallField :: Canvas where
  "smallField = \<lparr>width = 100, height = 100\<rparr>"

definition fullGame :: Game where
  "fullGame = gameOf [bodyOf 10 50 50 0 0] None (0, 0)"

text \<open>A game right after its start and one launch.\<close>

definition launchedGame :: Game where
  "launchedGame = step field MouseDown (init field (1 / 2) (1 / 2) (gameOf [] None (250, 400)))"

text \<open>A cherry on the centre of the spawn line, and a cherry queued.\<close>

definition occupiedCentre :: Game where
  "occupiedCentre = gameOf [bodyOf 0 200 550 0 0] None (0, 0)"

text \<open>
  Two overlapping cherries of which one moves, four cherries at rest in two overlapping
  pairs, and a cherry moving into the bottom right corner while a grape and a dekopon
  overlap far from it.
\<close>

definition movingCherries :: Game where
  "movingCherries = gameOf [bodyOf 0 51 300 50 0, bodyOf 0 110 300 0 0] None (0, 0)"

definition fourCherries :: Game where
  "fourCherries = gameOf [bodyOf 0 100 300 0 0, bodyOf 0 110 300 0 0,
                          bodyOf 0 300 300 0 0, bodyOf 0 310 300 0 0] None (0, 0)"


section \<open>Facts about the math helpers\<close>

lemma cos_arctan_div:
  assumes "a \<noteq> 0"
  shows "cos (arctan (b / a)) = \<bar>a\<bar> / sqrt (a * a + b * b)"
proof -
  have "1 + (b / a)\<^sup>2 = (a * a + b * b) / (a * a)"
    using assms by (simp add: power2_eq_square field_simps)
  then have "sqrt (1 + (b / a)\<^sup>2) = sqrt (a * a + b * b) / \<bar>a\<bar>"
    by (simp add: real_sqrt_divide)
  then show ?thesis by (simp add: cos_arctan)
qed

lemma sin_arctan_div:
  assumes "a \<noteq> 0"
  shows "sin (arctan (b / a)) = (b / a) * \<bar>a\<bar> / sqrt (a * a + b * b)"
proof -
  have "1 + (b / a)\<^sup>2 = (a * a + b * b) / (a * a)"
    using assms by (simp add: power2_eq_square field_simps)
  then have "sqrt (1 + (b / a)\<^sup>2) = sqrt (a * a + b * b) / \<bar>a\<bar>"
    by (simp add: real_sqrt_divide)
  then show ?thesis by (simp add: sin_arctan)
qed

lemma cos_atan2: "a \<noteq> 0 \<or> b \<noteq> 0 \<Longrightarrow> cos (atan2 b a) = a / sqrt (a * a + b * b)"
  by (auto simp: atan2_def cos_arctan_div)

lemma sin_atan2: "a \<noteq> 0 \<or> b \<noteq> 0 \<Longrightarrow> sin (atan2 b a) = b / sqrt (a * a + b * b)"
  by (auto simp: atan2_def sin_arctan_div)

lemma speed_of_polar:
  assumes "0 \<le> sp"
  shows "sqrt ((cos t * sp)\<^sup>2 + (sin t * sp)\<^sup>2) = sp"
proof -
  have "(cos t * sp)\<^sup>2 + (sin t * sp)\<^sup>2 = ((cos t)\<^sup>2 + (sin t)\<^sup>2) * sp\<^sup>2"
    by (simp only: power_mult_distrib distrib_right)
  also have "\<dots> = sp\<^sup>2" by simp
  finally show ?thesis using assms by simp
qed

section \<open>Launch\<close>

text \<open>
  C8: when no pending body exists (\<^verbatim>\<open>fruitToLaunch\<close> is null), a launch trigger changes
  nothing: the active collection, score, game-over flag, pending slot, queued tier and
  the number of scheduled spawns all stay as they are, and the handler is total.
\<close>

theorem launch_without_pending_is_noop:
  "fruitToLaunch s = None \<Longrightarrow> mousedown s = s \<and> step cv MouseDown s = s"
  by (simp add: mousedown_def)

theorem launch_without_pending_witness:
  "fruitToLaunch (gameOf [bodyOf 0 100 100 0 0] None (10, 20)) = None
   \<and> mousedown (gameOf [bodyOf 0 100 100 0 0] None (10, 20)) = gameOf [bodyOf 0 100 100 0 0] None (10, 20)"
  using launch_without_pending_is_noop [of "gameOf [bodyOf 0 100 100 0 0] None (10, 20)" field]
  by (simp add: gameOf_def)

text \<open>
  C3: with a pending body, a launch sets its velocity to \<open>(cos \<theta> \<cdot> s, sin \<theta> \<cdot> s)\<close> for
  the vector \<open>(dx, dy)\<close> from the body to the aim point, \<open>\<theta> = atan2 dy dx\<close> and
  \<open>s = min (0.1 \<cdot> sqrt (dx\<^sup>2 + dy\<^sup>2)) 30\<close>, appends the body to the active collection and
  empties the pending slot. The length of the velocity is \<open>s\<close>, so it never exceeds 30,
  and for an aim point off the body the velocity points along \<open>(dx, dy)\<close>.
\<close>

theorem launch_sets_capped_velocity:
  assumes "fruitToLaunch s = Some f"
  shows "let dx = fst (mousePos s) - x f;
             dy = snd (mousePos s) - y f;
             sp = min (0.1 * sqrt (dx\<^sup>2 + dy\<^sup>2)) 30;
             f' = f\<lparr>vx := cos (atan2 dy dx) * sp, vy := sin (atan2 dy dx) * sp\<rparr>
         in mousedown s = s\<lparr>fruits := fruits s @ [f'], fruitToLaunch := None,
                             spawnTimers := spawnTimers s + 1\<rparr>
            \<and> sqrt ((vx f')\<^sup>2 + (vy f')\<^sup>2) = sp \<and> sp \<le> 30
            \<and> (dx \<noteq> 0 \<or> dy \<noteq> 0 \<longrightarrow>
                 vx f' = dx / sqrt (dx\<^sup>2 + dy\<^sup>2) * sp \<and> vy f' = dy / sqrt (dx\<^sup>2 + dy\<^sup>2) * sp)"
proof -
  define dx where "dx = fst (mousePos s) - x f"
  define dy where "dy = snd (mousePos s) - y f"
  define sp where "sp = min (0.1 * sqrt (dx\<^sup>2 + dy\<^sup>2)) 30"
  have sp0: "0 \<le> sp" by (simp add: sp_def)
  have sq: "dx * dx + dy * dy = dx\<^sup>2 + dy\<^sup>2" by (simp add: power2_eq_square)
  have 1: "mousedown s = s\<lparr>fruits := fruits s @ [f\<lparr>vx := cos (atan2 dy dx) * sp, vy := sin (atan2 dy dx) * sp\<rparr>],
      fruitToLaunch := None, spawnTimers := spawnTimers s + 1\<rparr>"
    using assms by (simp add: mousedown_def Let_def dx_def dy_def sp_def power2_eq_square mult.commute)
  have 2: "sqrt ((cos (atan2 dy dx) * sp)\<^sup>2 + (sin (atan2 dy dx) * sp)\<^sup>2) = sp"
    by (rule speed_of_polar [OF sp0])
  have 3: "sp \<le> 30" by (simp add: sp_def)
  have 4: "dx \<noteq> 0 \<or> dy \<noteq> 0 \<Longrightarrow> cos (atan2 dy dx) = dx / sqrt (dx\<^sup>2 + dy\<^sup>2)
      \<and> sin (atan2 dy dx) = dy / sqrt (dx\<^sup>2 + dy\<^sup>2)"
    using cos_atan2 [of dx dy] sin_atan2 [of dx dy] by (simp add: sq)
  show ?thesis
    unfolding Let_def dx_def [symmetric] dy_def [symmetric] sp_def [symmetric]
    using 1 2 3 4 by simp
qed

theorem launch_sets_capped_velocity_witness:
  "fruitToLaunch (gameOf [] (Some (bodyOf 2 200 550 0 0)) (230, 510)) = Some (bodyOf 2 200 550 0 0)
   \<and> fruits (mousedown (gameOf [] (Some (bodyOf 2 200 550 0 0)) (230, 510))) = [bodyOf 2 200 550 3 (- 4)]
   \<and> fruitToLaunch (mousedown (gameOf [] (Some (bodyOf 2 200 550 0 0)) (230, 510))) = None"
  using launch_sets_capped_velocity [of "gameOf [] (Some (bodyOf 2 200 550 0 0)) (230, 510)" "bodyOf 2 200 550 0 0"]
  by (simp add: gameOf_def bodyOf_def Let_def fruitTypes_def)


section \<open>Facts about the simulator step\<close>

lemma sqrt_less_iff_sq: "0 \<le> v \<Longrightarrow> sqrt v < r \<longleftrightarrow> 0 < r \<and> v < r\<^sup>2"
proof (cases "0 < r")
  case True
  have "sqrt v < sqrt (r\<^sup>2) \<longleftrightarrow> v < r\<^sup>2" by (rule real_sqrt_less_iff)
  with True show ?thesis by simp
next
  case False
  assume "0 \<le> v"
  then have "0 \<le> sqrt v" by simp
  with False show ?thesis by linarith
qed

lemma overlapping_iff:
  "overlapping f1 f2 \<longleftrightarrow>
    0 < radius f1 + radius f2
    \<and> (x f2 - x f1)\<^sup>2 + (y f2 - y f1)\<^sup>2 < (radius f1 + radius f2)\<^sup>2"
  unfolding overlapping_def
  by (subst sqrt_less_iff_sq) (simp_all add: power2_eq_square)

lemma collidePair_apart:
  "\<not> overlapping (fruits s ! i) (fruits s ! j) \<Longrightarrow> collidePair i j s = (s, False)"
  by (simp add: collidePair_def overlapping_def Let_def)

lemma innerLoop_noOverlap:
  "noOverlap (fruits s) \<Longrightarrow> i < j \<Longrightarrow> innerLoop i j s = s"
proof (induction i j s rule: innerLoop.induct)
  case (1 i j s)
  show ?case
  proof (cases "j < length (fruits s)")
    case False
    then show ?thesis by (simp add: innerLoop.simps [of i j s])
  next
    case True
    with "1.prems" have "\<not> overlapping (fruits s ! i) (fruits s ! j)"
      by (simp add: noOverlap_def)
    then have c: "collidePair i j s = (s, False)" by (rule collidePair_apart)
    with True "1.IH" "1.prems" have "innerLoop i (j + 1) s = s" by simp
    with True c show ?thesis by (simp add: innerLoop.simps [of i j s])
  qed
qed

lemma outerLoop_noOverlap:
  "noOverlap (fruits s) \<Longrightarrow> outerLoop i s = s"
proof (induction i s rule: outerLoop.induct)
  case (1 i s)
  show ?case
  proof (cases "i < length (fruits s)")
    case False
    then show ?thesis by (simp add: outerLoop.simps [of i s])
  next
    case True
    have inner: "innerLoop i (i + 1) s = s"
      using "1.prems" by (simp add: innerLoop_noOverlap)
    with True "1.IH" "1.prems" have "outerLoop (i + 1) s = s" by simp
    with True inner show ?thesis by (simp add: outerLoop.simps [of i s])
  qed
qed

lemma update_noOverlap:
  "noOverlap (map (integrate cv) (fruits s)) \<Longrightarrow>
    update cv s = s\<lparr>fruits := map (integrate cv) (fruits s), updateCalls := updateCalls s + 1\<rparr>"
  by (simp add: update_def outerLoop_noOverlap)

lemma noOverlap_single: "noOverlap [f]"
  by (simp add: noOverlap_def)

lemma bounceY_x [simp]:
  "x (bounceY cv f) = x f" "vx (bounceY cv f) = vx f" "radius (bounceY cv f) = radius f"
  "typeIndex (bounceY cv f) = typeIndex f"
  by (simp_all add: bounceY_def)

lemma bounceX_y [simp]:
  "y (bounceX cv f) = y f" "vy (bounceX cv f) = vy f" "radius (bounceX cv f) = radius f"
  "typeIndex (bounceX cv f) = typeIndex f"
  by (simp_all add: bounceX_def)

lemma pre_bounce [simp]:
  "x (rotate (move (applyFriction f))) = x f + vx f * 0.98"
  "y (rotate (move (applyFriction f))) = y f + vy f * 0.98"
  "vx (rotate (move (applyFriction f))) = vx f * 0.98"
  "vy (rotate (move (applyFriction f))) = vy f * 0.98"
  "radius (rotate (move (applyFriction f))) = radius f"
  "typeIndex (rotate (move (applyFriction f))) = typeIndex f"
  by (simp_all add: rotate_def move_def applyFriction_def)

lemma integrate_radius [simp]: "radius (integrate cv f) = radius f"
  by (simp add: integrate_def)

lemma integrate_typeIndex [simp]: "typeIndex (integrate cv f) = typeIndex f"
  by (simp add: integrate_def)

lemma integrate_x:
  "x (integrate cv f) =
    (if x f + vx f * 0.98 - radius f < 0 then radius f
     else if x f + vx f * 0.98 + radius f > real (width cv) then real (width cv) - radius f
     else x f + vx f * 0.98)"
  by (simp add: integrate_def) (simp add: bounceX_def)

lemma integrate_vx:
  "vx (integrate cv f) =
    (if x f + vx f * 0.98 - radius f < 0 \<or> x f + vx f * 0.98 + radius f > real (width cv)
     then vx f * 0.98 * (- 0.7) else vx f * 0.98)"
  by (simp add: integrate_def) (simp add: bounceX_def)

lemma integrate_y:
  "y (integrate cv f) =
    (if y f + vy f * 0.98 - radius f < 0 then radius f
     else if y f + vy f * 0.98 + radius f > real (height cv) then real (height cv) - radius f
     else y f + vy f * 0.98)"
  by (simp add: integrate_def bounceY_def)

lemma integrate_vy:
  "vy (integrate cv f) =
    (if y f + vy f * 0.98 - radius f < 0 \<or> y f + vy f * 0.98 + radius f > real (height cv)
     then vy f * 0.98 * (- 0.7) else vy f * 0.98)"
  by (simp add: integrate_def bounceY_def)

lemma update_lone:
  "fruits s = [f] \<Longrightarrow>
    update cv s = s\<lparr>fruits := [integrate cv f], updateCalls := updateCalls s + 1\<rparr>"
  using update_noOverlap [of cv s] by (simp add: noOverlap_single)

lemma collidePair_bounce:
  assumes "overlapping (fruits s ! i) (fruits s ! j)"
    and "typeIndex (fruits s ! i) \<noteq> typeIndex (fruits s ! j) \<or> \<not> typeIndex (fruits s ! i) < 10"
  shows "collidePair i j s =
    (s\<lparr>fruits := (fruits s)[i := fst (resolveOverlap (fruits s ! i) (fruits s ! j)),
                              j := snd (resolveOverlap (fruits s ! i) (fruits s ! j))]\<rparr>, False)"
proof -
  have t: "typeIndex (fst (resolveOverlap f1 f2)) = typeIndex f1"
    "typeIndex (snd (resolveOverlap f1 f2)) = typeIndex f2" for f1 f2
    by (simp_all add: resolveOverlap_def Let_def)
  have l: "length fruitTypes = 11" by (simp add: fruitTypes_def)
  show ?thesis
    using assms unfolding collidePair_def Let_def overlapping_def [symmetric]
    by (simp add: case_prod_unfold t l)
qed

lemma innerLoop_done: "\<not> j < length (fruits s) \<Longrightarrow> innerLoop i j s = s"
  by (simp add: innerLoop.simps [of i j s])

lemma innerLoop_break:
  "j < length (fruits s) \<Longrightarrow> snd (collidePair i j s) \<Longrightarrow> innerLoop i j s = fst (collidePair i j s)"
  by (simp add: innerLoop.simps [of i j s])

lemma innerLoop_next:
  "j < length (fruits s) \<Longrightarrow> \<not> snd (collidePair i j s) \<Longrightarrow>
    innerLoop i j s = innerLoop i (Suc j) (fst (collidePair i j s))"
  by (simp add: innerLoop.simps [of i j s])

lemma outerLoop_done: "\<not> i < length (fruits s) \<Longrightarrow> outerLoop i s = s"
  by (simp add: outerLoop.simps [of i s])

lemma outerLoop_next:
  "i < length (fruits s) \<Longrightarrow> outerLoop i s = outerLoop (Suc i) (innerLoop i (Suc i) s)"
  by (simp add: outerLoop.simps [of i s])

section \<open>Wall bounces\<close>

text \<open>
  C7, as amended: a lone body with \<open>vx = 10\<close>, \<open>vy = 0\<close> whose right edge is 2 units
  past the right boundary is, after one step, at \<open>x = width - radius\<close> with
  \<open>vx = -6.86\<close> (friction \<open>0.98\<close> is applied before the bounce factor \<open>-0.7\<close>),
  provided the field is wide enough for the moved body not to reach the left wall.
\<close>

theorem lone_body_right_wall_bounce:
  assumes "fruits s = [f]"
    and "vx f = 10" and "vy f = 0"
    and "x f = real (width cv) - radius f + 2"
    and "2 * radius f \<le> real (width cv) + 11.8"
  shows "length (fruits (update cv s)) = 1
    \<and> x (fruits (update cv s) ! 0) = real (width cv) - radius f
    \<and> vx (fruits (update cv s) ! 0) = - 6.86"
  using assms by (simp add: update_lone integrate_x integrate_vx)

theorem lone_body_right_wall_bounce_witness:
  "fruits (gameOf [bodyOf 0 387 300 10 0] None (0, 0)) = [bodyOf 0 387 300 10 0]
   \<and> x (bodyOf 0 387 300 10 0) = real (width field) - radius (bodyOf 0 387 300 10 0) + 2
   \<and> x (fruits (update field (gameOf [bodyOf 0 387 300 10 0] None (0, 0))) ! 0) = 385
   \<and> vx (fruits (update field (gameOf [bodyOf 0 387 300 10 0] None (0, 0))) ! 0) = - 6.86"
  using lone_body_right_wall_bounce
    [of "gameOf [bodyOf 0 387 300 10 0] None (0, 0)" "bodyOf 0 387 300 10 0" field]
  by (simp add: gameOf_def bodyOf_def field_def fruitTypes_def)

text \<open>At the scenario of the claim the velocity after the step is not \<open>-7\<close>.\<close>

theorem right_wall_scenario_counterexample:
  "vx (bodyOf 0 387 300 10 0) = 10 \<and> vy (bodyOf 0 387 300 10 0) = 0
   \<and> x (bodyOf 0 387 300 10 0) = real (width field) - radius (bodyOf 0 387 300 10 0) + 2
   \<and> vx (fruits (update field (gameOf [bodyOf 0 387 300 10 0] None (0, 0))) ! 0) \<noteq> - 7"
  by (simp add: update_lone integrate_vx gameOf_def bodyOf_def field_def fruitTypes_def)

section \<open>Merging\<close>

lemma length_fruitTypes: "length fruitTypes = 11"
  by (simp add: fruitTypes_def)

lemma resolveOverlap_fields:
  "typeIndex (fst (resolveOverlap f1 f2)) = typeIndex f1"
  "typeIndex (snd (resolveOverlap f1 f2)) = typeIndex f2"
  "radius (fst (resolveOverlap f1 f2)) = radius f1"
  "radius (snd (resolveOverlap f1 f2)) = radius f2"
  by (simp_all add: resolveOverlap_def Let_def)

lemma resolveOverlap_midpoint:
  "x (fst (resolveOverlap f1 f2)) + x (snd (resolveOverlap f1 f2)) = x f1 + x f2"
  "y (fst (resolveOverlap f1 f2)) + y (snd (resolveOverlap f1 f2)) = y f1 + y f2"
  by (simp_all add: resolveOverlap_def Let_def)

lemma collidePair_merge:
  assumes "overlapping (fruits s ! i) (fruits s ! j)"
    and "typeIndex (fruits s ! i) = typeIndex (fruits s ! j)"
    and "typeIndex (fruits s ! i) < 10"
  shows "collidePair i j s =
    (s\<lparr>fruits :=
         splice1 i (splice1 j ((fruits s)[i := fst (resolveOverlap (fruits s ! i) (fruits s ! j)),
                                          j := snd (resolveOverlap (fruits s ! i) (fruits s ! j))]))
         @ [mergedFruit (fst (resolveOverlap (fruits s ! i) (fruits s ! j)))
                        (snd (resolveOverlap (fruits s ! i) (fruits s ! j)))],
       gscore := gscore s + score (fruitTypes ! (typeIndex (fruits s ! i) + 1))\<rparr>, True)"
  using assms unfolding collidePair_def Let_def overlapping_def [symmetric]
  by (simp add: case_prod_unfold resolveOverlap_fields length_fruitTypes)

lemma splice_pair:
  assumes "i < j" and "j < length xs"
  shows "splice1 i (splice1 j (xs[i := a, j := b])) =
    take i xs @ drop (Suc i) (take j xs) @ drop (Suc j) xs"
  using assms by (simp add: splice1_def min_def drop_take)

lemma mergedFruit_fields:
  "typeIndex (mergedFruit f1 f2) = typeIndex f1 + 1"
  "radius (mergedFruit f1 f2) = radius (fruitTypes ! (typeIndex f1 + 1))"
  "score (mergedFruit f1 f2) = score (fruitTypes ! (typeIndex f1 + 1))"
  "rank (mergedFruit f1 f2) = rank (fruitTypes ! (typeIndex f1 + 1))"
  "x (mergedFruit f1 f2) = (x f1 + x f2) / 2"
  "y (mergedFruit f1 f2) = (y f1 + y f2) / 2"
  "angle (mergedFruit f1 f2) = 0"
  "vx (mergedFruit f1 f2) =
     ((radius f1 * vx f1 + radius f2 * vx f2) / radius (fruitTypes ! (typeIndex f1 + 1))) * 0.5"
  "vy (mergedFruit f1 f2) =
     ((radius f1 * vy f1 + radius f2 * vy f2) / radius (fruitTypes ! (typeIndex f1 + 1))) * 0.5"
  by (simp_all add: mergedFruit_def Let_def)

text \<open>
  What one visit does to a pair \<open>i < j\<close> that overlaps and shares a tier index below 10.
\<close>

lemma merge_at_visit:
  assumes "i < j" and "j < length (fruits s)"
    and "overlapping (fruits s ! i) (fruits s ! j)"
    and "typeIndex (fruits s ! i) = typeIndex (fruits s ! j)"
    and "typeIndex (fruits s ! i) < 10"
  shows "let f1 = fruits s ! i; f2 = fruits s ! j;
             f1' = fst (resolveOverlap f1 f2); f2' = snd (resolveOverlap f1 f2);
             s' = fst (collidePair i j s);
             new = last (fruits s');
             newType = fruitTypes ! (typeIndex f1 + 1)
         in snd (collidePair i j s)
          \<and> fruits s' = take i (fruits s) @ drop (Suc i) (take j (fruits s))
                          @ drop (Suc j) (fruits s) @ [new]
          \<and> length (fruits s') + 1 = length (fruits s)
          \<and> gscore s' = gscore s + score newType
          \<and> typeIndex new = typeIndex f1 + 1
          \<and> radius new = radius newType \<and> score new = score newType
          \<and> x new = (x f1' + x f2') / 2 \<and> y new = (y f1' + y f2') / 2
          \<and> x new = (x f1 + x f2) / 2 \<and> y new = (y f1 + y f2) / 2
          \<and> angle new = 0
          \<and> vx new = ((radius f1 * vx f1' + radius f2 * vx f2') / radius newType) * 0.5
          \<and> vy new = ((radius f1 * vy f1' + radius f2 * vy f2') / radius newType) * 0.5"
proof -
  note c = collidePair_merge [OF assms(3-5)]
  show ?thesis
    unfolding Let_def c
    using assms(1,2)
    by (simp add: splice_pair mergedFruit_fields resolveOverlap_fields resolveOverlap_midpoint)
qed

lemma cherries_merge:
  assumes fs: "fruits s = [bodyOf 0 100 300 0 0, bodyOf 0 110 300 0 0]"
  shows "collidePair 0 (Suc 0) s =
    (s\<lparr>fruits := [bodyOf (Suc 0) 105 300 0 0], gscore := gscore s + 2\<rparr>, True)"
proof -
  have ov: "overlapping (fruits s ! 0) (fruits s ! Suc 0)"
    by (simp add: fs overlapping_iff bodyOf_def fruitTypes_def)
  have ty: "typeIndex (fruits s ! 0) = typeIndex (fruits s ! Suc 0)"
    "typeIndex (fruits s ! 0) < 10"
    by (simp_all add: fs bodyOf_def)
  show ?thesis
    unfolding collidePair_merge [OF ov ty]
    by (simp add: fs bodyOf_def fruitTypes_def splice1_def
        mergedFruit_def resolveOverlap_def Let_def atan2_def)
qed

text \<open>
  The scenario of the specification as a whole step: the two cherries merge into one
  strawberry at their midpoint, and the score becomes 2.
\<close>

lemma cherryPair_update:
  "fruits (update field cherryPair) = [bodyOf (Suc 0) 105 300 0 0]"
  "gscore (update field cherryPair) = 2"
proof -
  define s1 where "s1 = cherryPair\<lparr>fruits := map (integrate field) (fruits cherryPair),
    updateCalls := updateCalls cherryPair + 1\<rparr>"
  have "map (integrate field) (fruits cherryPair) = fruits cherryPair"
    by (simp add: cherryPair_def gameOf_def bodyOf_def field_def fruitTypes_def
      integrate_def applyFriction_def move_def rotate_def bounceX_def bounceY_def)
  then have s1: "s1 = cherryPair\<lparr>updateCalls := updateCalls cherryPair + 1\<rparr>"
    by (simp add: s1_def)
  have c: "collidePair 0 (Suc 0) s1 =
      (s1\<lparr>fruits := [bodyOf (Suc 0) 105 300 0 0], gscore := 2\<rparr>, True)"
    using cherries_merge [of s1] by (simp add: s1 cherryPair_def gameOf_def)
  have l1: "length (fruits s1) = 2" by (simp add: s1 cherryPair_def gameOf_def)
  have i0: "innerLoop 0 (Suc 0) s1 = s1\<lparr>fruits := [bodyOf (Suc 0) 105 300 0 0], gscore := 2\<rparr>"
    using c l1 by (simp add: innerLoop_break)
  have o: "outerLoop 0 s1 = s1\<lparr>fruits := [bodyOf (Suc 0) 105 300 0 0], gscore := 2\<rparr>"
    using l1 i0 by (simp add: outerLoop_next outerLoop_done)
  have "update field cherryPair = s1\<lparr>fruits := [bodyOf (Suc 0) 105 300 0 0], gscore := 2\<rparr>"
    unfolding update_def s1_def [symmetric] by (rule o)
  then show "fruits (update field cherryPair) = [bodyOf (Suc 0) 105 300 0 0]"
    "gscore (update field cherryPair) = 2"
    by simp_all
qed

subsection \<open>The scan as a sequence of visits\<close>

lemma update_integrated: "update cv s = outerLoop 0 (integrated cv s)"
  by (simp add: update_def integrated_def)

lemma innerVisits_done: "\<not> j < length (fruits s) \<Longrightarrow> innerVisits i j s = []"
  by (simp add: innerVisits.simps [of i j s])

lemma innerVisits_break:
  "j < length (fruits s) \<Longrightarrow> snd (collidePair i j s) \<Longrightarrow> innerVisits i j s = [(i, j, s)]"
  by (simp add: innerVisits.simps [of i j s])

lemma innerVisits_next:
  "j < length (fruits s) \<Longrightarrow> \<not> snd (collidePair i j s) \<Longrightarrow>
    innerVisits i j s = (i, j, s) # innerVisits i (Suc j) (fst (collidePair i j s))"
  by (simp add: innerVisits.simps [of i j s])

lemma outerVisits_done: "\<not> i < length (fruits s) \<Longrightarrow> outerVisits i s = []"
  by (simp add: outerVisits.simps [of i s])

lemma outerVisits_next:
  "i < length (fruits s) \<Longrightarrow>
    outerVisits i s = innerVisits i (Suc i) s @ outerVisits (Suc i) (innerLoop i (Suc i) s)"
  by (simp add: outerVisits.simps [of i s])

lemma collidePair_merges: "snd (collidePair i j t) \<longleftrightarrow> merges (i, j, t)"
proof (cases "overlapping (fruits t ! i) (fruits t ! j)")
  case False
  then show ?thesis by (simp add: collidePair_apart merges_def)
next
  case ov: True
  show ?thesis
  proof (cases "typeIndex (fruits t ! i) = typeIndex (fruits t ! j) \<and> typeIndex (fruits t ! i) < 10")
    case True
    with ov show ?thesis by (simp add: collidePair_merge merges_def)
  next
    case False
    then have "typeIndex (fruits t ! i) \<noteq> typeIndex (fruits t ! j) \<or> \<not> typeIndex (fruits t ! i) < 10"
      by blast
    from collidePair_bounce [OF ov this] False show ?thesis by (simp add: merges_def)
  qed
qed

lemma innerVisits_indices:
  "v \<in> set (innerVisits i j s) \<Longrightarrow> i < j \<Longrightarrow>
    fst v = i \<and> i < fst (snd v) \<and> fst (snd v) < length (fruits (snd (snd v)))"
proof (induction i j s rule: innerVisits.induct)
  case (1 i j s)
  show ?case
  proof (cases "j < length (fruits s)")
    case False
    with "1.prems" show ?thesis by (simp add: innerVisits_done)
  next
    case j: True
    show ?thesis
    proof (cases "snd (collidePair i j s)")
      case True
      with j "1.prems" show ?thesis by (auto simp: innerVisits_break)
    next
      case False
      from "1.prems" j False
      have "v = (i, j, s) \<or> v \<in> set (innerVisits i (j + 1) (fst (collidePair i j s)))"
        by (simp add: innerVisits_next)
      then show ?thesis
      proof
        assume "v = (i, j, s)"
        with j "1.prems" show ?thesis by simp
      next
        assume "v \<in> set (innerVisits i (j + 1) (fst (collidePair i j s)))"
        from "1.IH" [OF j False this] "1.prems"(2) show ?thesis by simp
      qed
    qed
  qed
qed

lemma outerVisits_indices:
  "v \<in> set (outerVisits i s) \<Longrightarrow>
    fst v < fst (snd v) \<and> fst (snd v) < length (fruits (snd (snd v)))"
proof (induction i s rule: outerVisits.induct)
  case (1 i s)
  show ?case
  proof (cases "i < length (fruits s)")
    case False
    with "1.prems" show ?thesis by (simp add: outerVisits_done)
  next
    case True
    with "1.prems" have "v \<in> set (innerVisits i (i + 1) s)
        \<or> v \<in> set (outerVisits (i + 1) (innerLoop i (i + 1) s))"
      by (simp add: outerVisits_next)
    then show ?thesis
    proof
      assume "v \<in> set (innerVisits i (i + 1) s)"
      from innerVisits_indices [OF this] show ?thesis by simp
    next
      assume "v \<in> set (outerVisits (i + 1) (innerLoop i (i + 1) s))"
      from "1.IH" [OF True this] show ?thesis .
    qed
  qed
qed

lemma collidePair_merge_length:
  assumes "i < j" and "j < length (fruits t)" and "merges (i, j, t)"
  shows "length (fruits (fst (collidePair i j t))) + 1 = length (fruits t)"
    and "gscore (fst (collidePair i j t)) = gscore t + mergeScore (i, j, t)"
  using merge_at_visit [OF assms(1,2)] assms(3)
  by (simp_all add: merges_def mergeScore_def Let_def)

lemma collidePair_quiet_gscore:
  "\<not> snd (collidePair i j t) \<Longrightarrow> gscore (fst (collidePair i j t)) = gscore t"
  unfolding collidePair_def Let_def
  by (auto split: prod.splits if_splits)

lemma innerLoop_last:
  "innerLoop i j s = last (s # map afterVisit (innerVisits i j s))"
proof (induction i j s rule: innerLoop.induct)
  case (1 i j s)
  show ?case
  proof (cases "j < length (fruits s)")
    case False
    then show ?thesis by (simp add: innerLoop_done innerVisits_done)
  next
    case j: True
    show ?thesis
    proof (cases "snd (collidePair i j s)")
      case True
      with j show ?thesis by (simp add: innerLoop_break innerVisits_break afterVisit_def)
    next
      case False
      from "1.IH" [OF j False] j False show ?thesis
        by (simp add: innerLoop_next innerVisits_next afterVisit_def)
    qed
  qed
qed

lemma outerLoop_last:
  "outerLoop i s = last (s # map afterVisit (outerVisits i s))"
proof (induction i s rule: outerLoop.induct)
  case (1 i s)
  show ?case
  proof (cases "i < length (fruits s)")
    case False
    then show ?thesis by (simp add: outerLoop_done outerVisits_done)
  next
    case True
    define A where "A = map afterVisit (innerVisits i (i + 1) s)"
    define B where "B = map afterVisit (outerVisits (i + 1) (innerLoop i (i + 1) s))"
    have a: "innerLoop i (i + 1) s = last (s # A)"
      unfolding A_def by (rule innerLoop_last)
    have "outerLoop (i + 1) (innerLoop i (i + 1) s) = last (innerLoop i (i + 1) s # B)"
      unfolding B_def by (rule "1.IH" [OF True])
    also have "\<dots> = last (s # A @ B)"
      unfolding a by (cases B) simp_all
    finally show ?thesis
      using True by (simp add: outerLoop_next outerVisits_next A_def B_def)
  qed
qed

lemma innerLoop_count:
  "i < j \<Longrightarrow>
    length (fruits (innerLoop i j s)) + length (filter merges (innerVisits i j s)) = length (fruits s)
    \<and> gscore (innerLoop i j s) = gscore s + (\<Sum>v\<leftarrow>filter merges (innerVisits i j s). mergeScore v)"
proof (induction i j s rule: innerLoop.induct)
  case (1 i j s)
  show ?case
  proof (cases "j < length (fruits s)")
    case False
    then show ?thesis by (simp add: innerLoop_done innerVisits_done)
  next
    case j: True
    show ?thesis
    proof (cases "snd (collidePair i j s)")
      case True
      then have m: "merges (i, j, s)" by (simp add: collidePair_merges)
      from collidePair_merge_length [OF "1.prems" j m] j True m show ?thesis
        by (simp add: innerLoop_break innerVisits_break)
    next
      case False
      then have m: "\<not> merges (i, j, s)" by (simp add: collidePair_merges)
      from "1.IH" [OF j False] "1.prems" j False m
        collidePair_length [OF False] collidePair_quiet_gscore [OF False]
      show ?thesis
        by (simp add: innerLoop_next innerVisits_next)
    qed
  qed
qed

lemma outerLoop_count:
  "length (fruits (outerLoop i s)) + length (filter merges (outerVisits i s)) = length (fruits s)
    \<and> gscore (outerLoop i s) = gscore s + (\<Sum>v\<leftarrow>filter merges (outerVisits i s). mergeScore v)"
proof (induction i s rule: outerLoop.induct)
  case (1 i s)
  show ?case
  proof (cases "i < length (fruits s)")
    case False
    then show ?thesis by (simp add: outerLoop_done outerVisits_done)
  next
    case True
    from "1.IH" [OF True] innerLoop_count [of i "i + 1" s] True show ?thesis
      by (simp add: outerLoop_next outerVisits_next)
  qed
qed

lemma resolveOverlap_momentum:
  assumes "radius f1 + radius f2 \<noteq> 0"
  shows "radius f1 * vx (fst (resolveOverlap f1 f2)) + radius f2 * vx (snd (resolveOverlap f1 f2))
      = 0.95 * (radius f1 * vx f1 + radius f2 * vx f2)"
    and "radius f1 * vy (fst (resolveOverlap f1 f2)) + radius f2 * vy (snd (resolveOverlap f1 f2))
      = 0.95 * (radius f1 * vy f1 + radius f2 * vy f2)"
proof -
  define m1 where "m1 = radius f1"
  define m2 where "m2 = radius f2"
  have m: "m1 + m2 \<noteq> 0" using assms by (simp add: m1_def m2_def)
  have key: "m1 * ((a * (m1 - m2) + 2 * m2 * b) / (m1 + m2) * 0.95)
      + m2 * ((b * (m2 - m1) + 2 * m1 * a) / (m1 + m2) * 0.95) = 0.95 * (m1 * a + m2 * b)" for a b :: real
  proof -
    have "m1 * (a * (m1 - m2) + 2 * m2 * b) + m2 * (b * (m2 - m1) + 2 * m1 * a)
        = (m1 * a + m2 * b) * (m1 + m2)"
      by (simp add: algebra_simps)
    then have "(m1 * (a * (m1 - m2) + 2 * m2 * b) + m2 * (b * (m2 - m1) + 2 * m1 * a)) / (m1 + m2)
        = m1 * a + m2 * b"
      using m by simp
    moreover have "m1 * (X / d * c) + m2 * (Y / d * c) = c * ((m1 * X + m2 * Y) / d)"
      for X Y d c :: real
      by (simp add: add_divide_distrib algebra_simps)
    ultimately show ?thesis by (simp only:)
  qed
  show "radius f1 * vx (fst (resolveOverlap f1 f2)) + radius f2 * vx (snd (resolveOverlap f1 f2))
      = 0.95 * (radius f1 * vx f1 + radius f2 * vx f2)"
    using key [of "vx f1" "vx f2"] by (simp add: resolveOverlap_def Let_def m1_def m2_def)
  show "radius f1 * vy (fst (resolveOverlap f1 f2)) + radius f2 * vy (snd (resolveOverlap f1 f2))
      = 0.95 * (radius f1 * vy f1 + radius f2 * vy f2)"
    using key [of "vy f1" "vy f2"] by (simp add: resolveOverlap_def Let_def m1_def m2_def)
qed

lemma overlapping_radii: "overlapping f1 f2 \<Longrightarrow> 0 < radius f1 + radius f2"
  by (simp add: overlapping_iff)

lemma merged_velocity:
  assumes "overlapping f1 f2"
  shows "vx (mergedFruit (fst (resolveOverlap f1 f2)) (snd (resolveOverlap f1 f2)))
      = 0.95 * (((radius f1 * vx f1 + radius f2 * vx f2) / radius (fruitTypes ! (typeIndex f1 + 1))) * 0.5)"
    and "vy (mergedFruit (fst (resolveOverlap f1 f2)) (snd (resolveOverlap f1 f2)))
      = 0.95 * (((radius f1 * vy f1 + radius f2 * vy f2) / radius (fruitTypes ! (typeIndex f1 + 1))) * 0.5)"
proof -
  have nz: "radius f1 + radius f2 \<noteq> 0" using overlapping_radii [OF assms] by simp
  show "vx (mergedFruit (fst (resolveOverlap f1 f2)) (snd (resolveOverlap f1 f2)))
      = 0.95 * (((radius f1 * vx f1 + radius f2 * vx f2) / radius (fruitTypes ! (typeIndex f1 + 1))) * 0.5)"
    unfolding mergedFruit_fields resolveOverlap_fields resolveOverlap_momentum(1) [OF nz]
    by simp
  show "vy (mergedFruit (fst (resolveOverlap f1 f2)) (snd (resolveOverlap f1 f2)))
      = 0.95 * (((radius f1 * vy f1 + radius f2 * vy f2) / radius (fruitTypes ! (typeIndex f1 + 1))) * 0.5)"
    unfolding mergedFruit_fields resolveOverlap_fields resolveOverlap_momentum(2) [OF nz]
    by simp
qed

lemma innerLoop_quiet_row:
  "\<forall>b. j \<le> b \<and> b < length (fruits s) \<longrightarrow> \<not> overlapping (fruits s ! i) (fruits s ! b)
    \<Longrightarrow> innerLoop i j s = s"
proof (induction i j s rule: innerLoop.induct)
  case (1 i j s)
  show ?case
  proof (cases "j < length (fruits s)")
    case False
    then show ?thesis by (simp add: innerLoop_done)
  next
    case True
    with "1.prems" have "\<not> overlapping (fruits s ! i) (fruits s ! j)" by simp
    then have c: "collidePair i j s = (s, False)" by (rule collidePair_apart)
    have "innerLoop i (j + 1) (fst (collidePair i j s)) = fst (collidePair i j s)"
      using True c "1.prems" by (intro "1.IH") simp_all
    with True c show ?thesis by (simp add: innerLoop_next)
  qed
qed

lemma innerVisits_reaches:
  "j0 \<le> j \<Longrightarrow> j < length (fruits s)
    \<Longrightarrow> \<forall>b. j0 \<le> b \<and> b < j \<longrightarrow> \<not> overlapping (fruits s ! i) (fruits s ! b)
    \<Longrightarrow> (i, j, s) \<in> set (innerVisits i j0 s)"
proof (induction i j0 s rule: innerVisits.induct)
  case (1 i j0 s)
  from "1.prems" have j0: "j0 < length (fruits s)" by simp
  show ?case
  proof (cases "j0 = j")
    case True
    with j0 show ?thesis by (simp add: innerVisits.simps [of i j s])
  next
    case False
    with "1.prems" have lt: "j0 < j" by simp
    with "1.prems" have "\<not> overlapping (fruits s ! i) (fruits s ! j0)" by simp
    then have c: "collidePair i j0 s = (s, False)" by (rule collidePair_apart)
    have "(i, j, fst (collidePair i j0 s)) \<in> set (innerVisits i (j0 + 1) (fst (collidePair i j0 s)))"
      using j0 c lt "1.prems" by (intro "1.IH") simp_all
    with j0 c show ?thesis by (simp add: innerVisits_next)
  qed
qed

lemma outerVisits_reaches:
  "i0 \<le> i \<Longrightarrow> i < j \<Longrightarrow> j < length (fruits s)
    \<Longrightarrow> \<forall>a b. i0 \<le> a \<and> a < b \<and> b < length (fruits s) \<and> (a < i \<or> a = i \<and> b < j)
          \<longrightarrow> \<not> overlapping (fruits s ! a) (fruits s ! b)
    \<Longrightarrow> (i, j, s) \<in> set (outerVisits i0 s)"
proof (induction i0 s rule: outerVisits.induct)
  case (1 i0 s)
  from "1.prems" have i0: "i0 < length (fruits s)" by simp
  show ?case
  proof (cases "i0 = i")
    case True
    have "(i, j, s) \<in> set (innerVisits i (Suc i) s)"
      using "1.prems" True by (intro innerVisits_reaches) auto
    with i0 True show ?thesis by (simp add: outerVisits_next)
  next
    case False
    with "1.prems" have lt: "i0 < i" by simp
    have q: "innerLoop i0 (i0 + 1) s = s"
      using "1.prems"(4) lt by (intro innerLoop_quiet_row) auto
    have "(i, j, innerLoop i0 (i0 + 1) s) \<in> set (outerVisits (i0 + 1) (innerLoop i0 (i0 + 1) s))"
      using i0 lt "1.prems" unfolding q by (intro "1.IH" [unfolded q]) auto
    with i0 q show ?thesis by (simp add: outerVisits_next)
  qed
qed

lemma scanVisits_reaches:
  assumes "i < j" and "j < length (fruits s)"
    and "\<forall>a b. a < b \<and> b < length (fruits s) \<and> (a < i \<or> a = i \<and> b < j)
          \<longrightarrow> \<not> overlapping (fruits (integrated cv s) ! a) (fruits (integrated cv s) ! b)"
  shows "(i, j, integrated cv s) \<in> set (scanVisits cv s)"
  unfolding scanVisits_def
  using assms by (intro outerVisits_reaches) (simp_all add: integrated_def)

text \<open>
  C1, as amended: every pair of active bodies that the pairwise scan of a step visits
  while the pair overlaps and shares a tier index below the terminal tier 10 is merged at
  that visit. Both bodies are removed and exactly one new body is appended; the other
  bodies stay as they were and in their order, the count decreases by exactly one and
  the score grows by the new tier's score value. The new body has the tier index plus
  one with that tier's catalog fields, lies at the midpoint of the pair's positions
  after their separation (also the midpoint before it), has rotation zero, and has
  velocity \<open>((m1 \<cdot> v1' + m2 \<cdot> v2') / newMass) \<cdot> 0.5\<close>, which is
  \<open>0.95 \<cdot> ((m1 \<cdot> v1 + m2 \<cdot> v2) / newMass) \<cdot> 0.5\<close>: \<open>m1\<close>, \<open>m2\<close> are the old radii,
  \<open>v1\<close>, \<open>v2\<close> the velocities of the two bodies when the pair is visited, \<open>v1'\<close>,
  \<open>v2'\<close> the velocities that the collision response has just assigned, and \<open>newMass\<close>
  the new tier's radius. The step ends in the state that its last visit leaves, so over
  the step the count decreases by the number of merging visits and the score grows by
  the sum of their score values. The scan visits, in the state that integration leaves,
  every pair that has no overlapping pair before it in scan order; so the first
  overlapping pair of a step, if it shares a tier below 10, is always merged.
\<close>

theorem scan_merges_visited_equal_tier_pairs:
  "(\<forall>(i, j, t) \<in> set (scanVisits cv s).
      i < j \<and> j < length (fruits t)
      \<and> (merges (i, j, t) \<longrightarrow>
          (let f1 = fruits t ! i; f2 = fruits t ! j;
               f1' = fst (resolveOverlap f1 f2); f2' = snd (resolveOverlap f1 f2);
               t' = afterVisit (i, j, t);
               new = last (fruits t');
               newType = fruitTypes ! (typeIndex f1 + 1)
           in fruits t' = take i (fruits t) @ drop (Suc i) (take j (fruits t))
                            @ drop (Suc j) (fruits t) @ [new]
            \<and> length (fruits t') + 1 = length (fruits t)
            \<and> gscore t' = gscore t + score newType
            \<and> typeIndex new = typeIndex f1 + 1
            \<and> radius new = radius newType \<and> score new = score newType
            \<and> x new = (x f1' + x f2') / 2 \<and> y new = (y f1' + y f2') / 2
            \<and> x new = (x f1 + x f2) / 2 \<and> y new = (y f1 + y f2) / 2
            \<and> angle new = 0
            \<and> vx new = ((radius f1 * vx f1' + radius f2 * vx f2') / radius newType) * 0.5
            \<and> vy new = ((radius f1 * vy f1' + radius f2 * vy f2') / radius newType) * 0.5
            \<and> vx new = 0.95 * (((radius f1 * vx f1 + radius f2 * vx f2) / radius newType) * 0.5)
            \<and> vy new = 0.95 * (((radius f1 * vy f1 + radius f2 * vy f2) / radius newType) * 0.5))))
   \<and> update cv s = last (integrated cv s # map afterVisit (scanVisits cv s))
   \<and> length (fruits (update cv s)) + length (filter merges (scanVisits cv s)) = length (fruits s)
   \<and> gscore (update cv s) = gscore s + (\<Sum>v\<leftarrow>filter merges (scanVisits cv s). mergeScore v)
   \<and> (\<forall>i j. i < j \<and> j < length (fruits s)
          \<and> (\<forall>a b. a < b \<and> b < length (fruits s) \<and> (a < i \<or> a = i \<and> b < j)
                \<longrightarrow> \<not> overlapping (fruits (integrated cv s) ! a) (fruits (integrated cv s) ! b))
        \<longrightarrow> (i, j, integrated cv s) \<in> set (scanVisits cv s))"
proof (intro conjI ballI)
  fix v assume v: "v \<in> set (scanVisits cv s)"
  obtain i j t where ijt: "v = (i, j, t)" by (cases v) auto
  from outerVisits_indices [OF v [unfolded scanVisits_def]] ijt
  have ij: "i < j" "j < length (fruits t)" by simp_all
  have "merges (i, j, t) \<Longrightarrow>
      (let f1 = fruits t ! i; f2 = fruits t ! j;
           f1' = fst (resolveOverlap f1 f2); f2' = snd (resolveOverlap f1 f2);
           t' = afterVisit (i, j, t);
           new = last (fruits t');
           newType = fruitTypes ! (typeIndex f1 + 1)
       in fruits t' = take i (fruits t) @ drop (Suc i) (take j (fruits t))
                        @ drop (Suc j) (fruits t) @ [new]
        \<and> length (fruits t') + 1 = length (fruits t)
        \<and> gscore t' = gscore t + score newType
        \<and> typeIndex new = typeIndex f1 + 1
        \<and> radius new = radius newType \<and> score new = score newType
        \<and> x new = (x f1' + x f2') / 2 \<and> y new = (y f1' + y f2') / 2
        \<and> x new = (x f1 + x f2) / 2 \<and> y new = (y f1 + y f2) / 2
        \<and> angle new = 0
        \<and> vx new = ((radius f1 * vx f1' + radius f2 * vx f2') / radius newType) * 0.5
        \<and> vy new = ((radius f1 * vy f1' + radius f2 * vy f2') / radius newType) * 0.5
        \<and> vx new = 0.95 * (((radius f1 * vx f1 + radius f2 * vx f2) / radius newType) * 0.5)
        \<and> vy new = 0.95 * (((radius f1 * vy f1 + radius f2 * vy f2) / radius newType) * 0.5))"
  proof -
    assume m: "merges (i, j, t)"
    then have ov: "overlapping (fruits t ! i) (fruits t ! j)"
      and ty: "typeIndex (fruits t ! i) = typeIndex (fruits t ! j)" "typeIndex (fruits t ! i) < 10"
      by (simp_all add: merges_def)
    note c = collidePair_merge [OF ov ty]
    show ?thesis
      unfolding Let_def afterVisit_def prod.case c
      using ij merged_velocity [OF ov]
      by (simp add: splice_pair mergedFruit_fields resolveOverlap_fields resolveOverlap_midpoint)
  qed
  with ij ijt show "case v of (i, j, t) \<Rightarrow>
      i < j \<and> j < length (fruits t)
      \<and> (merges (i, j, t) \<longrightarrow>
          (let f1 = fruits t ! i; f2 = fruits t ! j;
               f1' = fst (resolveOverlap f1 f2); f2' = snd (resolveOverlap f1 f2);
               t' = afterVisit (i, j, t);
               new = last (fruits t');
               newType = fruitTypes ! (typeIndex f1 + 1)
           in fruits t' = take i (fruits t) @ drop (Suc i) (take j (fruits t))
                            @ drop (Suc j) (fruits t) @ [new]
            \<and> length (fruits t') + 1 = length (fruits t)
            \<and> gscore t' = gscore t + score newType
            \<and> typeIndex new = typeIndex f1 + 1
            \<and> radius new = radius newType \<and> score new = score newType
            \<and> x new = (x f1' + x f2') / 2 \<and> y new = (y f1' + y f2') / 2
            \<and> x new = (x f1 + x f2) / 2 \<and> y new = (y f1 + y f2) / 2
            \<and> angle new = 0
            \<and> vx new = ((radius f1 * vx f1' + radius f2 * vx f2') / radius newType) * 0.5
            \<and> vy new = ((radius f1 * vy f1' + radius f2 * vy f2') / radius newType) * 0.5
            \<and> vx new = 0.95 * (((radius f1 * vx f1 + radius f2 * vx f2) / radius newType) * 0.5)
            \<and> vy new = 0.95 * (((radius f1 * vy f1 + radius f2 * vy f2) / radius newType) * 0.5)))"
    by (simp only: prod.case) blast
next
  show "update cv s = last (integrated cv s # map afterVisit (scanVisits cv s))"
    unfolding update_integrated scanVisits_def by (rule outerLoop_last)
next
  show "length (fruits (update cv s)) + length (filter merges (scanVisits cv s)) = length (fruits s)"
    using outerLoop_count [of 0 "integrated cv s"]
    by (simp add: update_integrated scanVisits_def integrated_def)
next
  show "gscore (update cv s) = gscore s + (\<Sum>v\<leftarrow>filter merges (scanVisits cv s). mergeScore v)"
    using outerLoop_count [of 0 "integrated cv s"]
    by (simp add: update_integrated scanVisits_def integrated_def)
next
  show "\<forall>i j. i < j \<and> j < length (fruits s)
          \<and> (\<forall>a b. a < b \<and> b < length (fruits s) \<and> (a < i \<or> a = i \<and> b < j)
                \<longrightarrow> \<not> overlapping (fruits (integrated cv s) ! a) (fruits (integrated cv s) ! b))
        \<longrightarrow> (i, j, integrated cv s) \<in> set (scanVisits cv s)"
    using scanVisits_reaches [of _ _ s cv] by blast
qed

lemma movingCherries_integrated:
  "fruits (integrated field movingCherries) =
    [integrate field (bodyOf 0 51 300 50 0), integrate field (bodyOf 0 110 300 0 0)]"
  "x (integrate field (bodyOf 0 51 300 50 0)) = 100"
  "y (integrate field (bodyOf 0 51 300 50 0)) = 300"
  "vx (integrate field (bodyOf 0 51 300 50 0)) = 49"
  "vy (integrate field (bodyOf 0 51 300 50 0)) = 0"
  "x (integrate field (bodyOf 0 110 300 0 0)) = 110"
  "y (integrate field (bodyOf 0 110 300 0 0)) = 300"
  "vx (integrate field (bodyOf 0 110 300 0 0)) = 0"
  "vy (integrate field (bodyOf 0 110 300 0 0)) = 0"
  "radius (integrate field (bodyOf 0 p q v w)) = 15"
  "typeIndex (integrate field (bodyOf 0 p q v w)) = 0"
  by (simp_all add: integrated_def movingCherries_def gameOf_def integrate_x integrate_y
      integrate_vx integrate_vy bodyOf_def field_def fruitTypes_def)

lemma movingCherries_merges: "merges (0, Suc 0, integrated field movingCherries)"
  by (simp add: merges_def overlapping_iff movingCherries_integrated
      del: integrate_radius integrate_typeIndex)

lemma movingCherries_visits:
  "scanVisits field movingCherries = [(0, Suc 0, integrated field movingCherries)]"
proof -
  define s1 where "s1 = integrated field movingCherries"
  have l: "length (fruits s1) = 2" by (simp add: s1_def movingCherries_integrated)
  have m: "snd (collidePair 0 (Suc 0) s1)"
    unfolding s1_def collidePair_merges by (rule movingCherries_merges)
  have iv: "innerVisits 0 (Suc 0) s1 = [(0, Suc 0, s1)]"
    using l m by (simp add: innerVisits_break)
  have "length (fruits (fst (collidePair 0 (Suc 0) s1))) + 1 = length (fruits s1)"
    using m l by (intro collidePair_merge_length) (simp_all add: collidePair_merges)
  then have l': "length (fruits (innerLoop 0 (Suc 0) s1)) = 1"
    using l m by (simp add: innerLoop_break)
  show ?thesis
    unfolding scanVisits_def s1_def [symmetric]
    using l l' iv by (simp add: outerVisits_next outerVisits_done)
qed

theorem scan_merges_visited_equal_tier_pairs_witness:
  "(0, 1, integrated field movingCherries) \<in> set (scanVisits field movingCherries)
   \<and> merges (0, 1, integrated field movingCherries)
   \<and> length (fruits (update field movingCherries)) + 1 = length (fruits movingCherries)
   \<and> gscore (update field movingCherries) = gscore movingCherries + 2
   \<and> typeIndex (last (fruits (update field movingCherries))) = 1
   \<and> x (last (fruits (update field movingCherries))) = 105
   \<and> y (last (fruits (update field movingCherries))) = 300
   \<and> angle (last (fruits (update field movingCherries))) = 0
   \<and> vx (last (fruits (update field movingCherries))) = 17.45625
   \<and> vy (last (fruits (update field movingCherries))) = 0"
proof -
  define s1 where "s1 = integrated field movingCherries"
  define N where "N = last (fruits (update field movingCherries))"
  note T = scan_merges_visited_equal_tier_pairs [of field movingCherries]
  have v: "scanVisits field movingCherries = [(0, Suc 0, s1)]"
    unfolding s1_def by (rule movingCherries_visits)
  have "length (fruits movingCherries) = 2" by (simp add: movingCherries_def gameOf_def)
  then have mem: "(0, Suc 0, s1) \<in> set (scanVisits field movingCherries)"
    using T [THEN conjunct2, THEN conjunct2, THEN conjunct2, THEN conjunct2, rule_format, of 0 "Suc 0"]
    unfolding s1_def by simp
  have m: "merges (0, Suc 0, s1)" unfolding s1_def by (rule movingCherries_merges)
  have u: "update field movingCherries = afterVisit (0, Suc 0, s1)"
    using T [THEN conjunct2, THEN conjunct1] unfolding v by simp
  have c: "length (fruits (update field movingCherries)) + 1 = length (fruits movingCherries)"
    using T [THEN conjunct2, THEN conjunct2, THEN conjunct1] m unfolding v by simp
  have g: "gscore (update field movingCherries) = gscore movingCherries + mergeScore (0, Suc 0, s1)"
    using T [THEN conjunct2, THEN conjunct2, THEN conjunct2, THEN conjunct1] m unfolding v by simp
  have sc: "mergeScore (0, Suc 0, s1) = 2"
    by (simp add: mergeScore_def s1_def movingCherries_integrated fruitTypes_def
        del: integrate_radius integrate_typeIndex)
  have "case (0, Suc 0, s1) of (i, j, t) \<Rightarrow> i < j \<and> j < length (fruits t)
      \<and> (merges (i, j, t) \<longrightarrow>
          (let f1 = fruits t ! i; f2 = fruits t ! j;
               f1' = fst (resolveOverlap f1 f2); f2' = snd (resolveOverlap f1 f2);
               t' = afterVisit (i, j, t);
               new = last (fruits t');
               newType = fruitTypes ! (typeIndex f1 + 1)
           in fruits t' = take i (fruits t) @ drop (Suc i) (take j (fruits t))
                            @ drop (Suc j) (fruits t) @ [new]
            \<and> length (fruits t') + 1 = length (fruits t)
            \<and> gscore t' = gscore t + score newType
            \<and> typeIndex new = typeIndex f1 + 1
            \<and> radius new = radius newType \<and> score new = score newType
            \<and> x new = (x f1' + x f2') / 2 \<and> y new = (y f1' + y f2') / 2
            \<and> x new = (x f1 + x f2) / 2 \<and> y new = (y f1 + y f2) / 2
            \<and> angle new = 0
            \<and> vx new = ((radius f1 * vx f1' + radius f2 * vx f2') / radius newType) * 0.5
            \<and> vy new = ((radius f1 * vy f1' + radius f2 * vy f2') / radius newType) * 0.5
            \<and> vx new = 0.95 * (((radius f1 * vx f1 + radius f2 * vx f2) / radius newType) * 0.5)
            \<and> vy new = 0.95 * (((radius f1 * vy f1 + radius f2 * vy f2) / radius newType) * 0.5)))"
    using T [THEN conjunct1] mem by (rule bspec)
  with m have n: "typeIndex N = typeIndex (fruits s1 ! 0) + 1"
    "x N = (x (fruits s1 ! 0) + x (fruits s1 ! Suc 0)) / 2"
    "y N = (y (fruits s1 ! 0) + y (fruits s1 ! Suc 0)) / 2"
    "angle N = 0"
    "vx N = 0.95 * (((radius (fruits s1 ! 0) * vx (fruits s1 ! 0)
        + radius (fruits s1 ! Suc 0) * vx (fruits s1 ! Suc 0))
        / radius (fruitTypes ! (typeIndex (fruits s1 ! 0) + 1))) * 0.5)"
    "vy N = 0.95 * (((radius (fruits s1 ! 0) * vy (fruits s1 ! 0)
        + radius (fruits s1 ! Suc 0) * vy (fruits s1 ! Suc 0))
        / radius (fruitTypes ! (typeIndex (fruits s1 ! 0) + 1))) * 0.5)"
    unfolding prod.case Let_def N_def u by blast+
  have vals: "typeIndex N = 1" "x N = 105" "y N = 300" "angle N = 0" "vx N = 17.45625" "vy N = 0"
    unfolding n
    by (simp_all add: s1_def movingCherries_integrated fruitTypes_def
        del: integrate_radius integrate_typeIndex)
  from mem m c g sc vals show ?thesis
    unfolding N_def s1_def by simp
qed

text \<open>
  The claim as stated (every overlapping pair of equal tier is removed by the step) fails
  for a pair that the scan does not visit. Of four cherries in two overlapping pairs
  the scan merges the first pair and goes on at outer index 1, where the third cherry
  now is at index 0: the second pair overlaps throughout the step and both its cherries
  are still there after it.
\<close>

lemma fourCherries_update:
  "fruits (update field fourCherries) =
    [bodyOf 0 300 300 0 0, bodyOf 0 310 300 0 0, bodyOf (Suc 0) 105 300 0 0]"
proof -
  define s1 where "s1 = integrated field fourCherries"
  define m where "m = s1\<lparr>fruits := [bodyOf 0 300 300 0 0, bodyOf 0 310 300 0 0,
      bodyOf (Suc 0) 105 300 0 0], gscore := gscore s1 + 2\<rparr>"
  have f1: "fruits s1 = [bodyOf 0 100 300 0 0, bodyOf 0 110 300 0 0,
      bodyOf 0 300 300 0 0, bodyOf 0 310 300 0 0]"
    by (simp add: s1_def integrated_def fourCherries_def gameOf_def bodyOf_def field_def fruitTypes_def
      integrate_def applyFriction_def move_def rotate_def bounceX_def bounceY_def)
  have ov: "overlapping (fruits s1 ! 0) (fruits s1 ! Suc 0)"
    by (simp add: f1 overlapping_iff bodyOf_def fruitTypes_def)
  have ty: "typeIndex (fruits s1 ! 0) = typeIndex (fruits s1 ! Suc 0)"
    "typeIndex (fruits s1 ! 0) < 10"
    by (simp_all add: f1 bodyOf_def)
  have c: "collidePair 0 (Suc 0) s1 = (m, True)"
    unfolding collidePair_merge [OF ov ty]
    by (simp add: f1 m_def bodyOf_def fruitTypes_def splice1_def
        mergedFruit_def resolveOverlap_def Let_def atan2_def)
  have l1: "length (fruits s1) = 4" by (simp add: f1)
  have lm: "length (fruits m) = 3" by (simp add: m_def)
  have i0: "innerLoop 0 (Suc 0) s1 = m"
    using c l1 by (simp add: innerLoop_break)
  have ap: "\<not> overlapping (fruits m ! Suc 0) (fruits m ! Suc (Suc 0))"
    by (simp add: m_def overlapping_iff bodyOf_def fruitTypes_def)
  have i1: "innerLoop (Suc 0) (Suc (Suc 0)) m = m"
    using lm collidePair_apart [OF ap]
    by (simp add: innerLoop_next innerLoop_done)
  have o: "outerLoop 0 s1 = m"
    using l1 lm i0 i1
    by (simp add: outerLoop_next outerLoop_done innerLoop_done)
  have "update field fourCherries = m"
    unfolding update_integrated s1_def [symmetric] by (rule o)
  then show ?thesis by (simp add: m_def)
qed

theorem unvisited_pair_counterexample:
  "overlapping (fruits (integrated field fourCherries) ! 2) (fruits (integrated field fourCherries) ! 3)
   \<and> typeIndex (fruits (integrated field fourCherries) ! 2)
       = typeIndex (fruits (integrated field fourCherries) ! 3)
   \<and> typeIndex (fruits (integrated field fourCherries) ! 2) < 10
   \<and> fruits (integrated field fourCherries) ! 2 = bodyOf 0 300 300 0 0
   \<and> fruits (integrated field fourCherries) ! 3 = bodyOf 0 310 300 0 0
   \<and> fruits (update field fourCherries) =
       [bodyOf 0 300 300 0 0, bodyOf 0 310 300 0 0, bodyOf 1 105 300 0 0]"
proof -
  have "fruits (integrated field fourCherries) = [bodyOf 0 100 300 0 0, bodyOf 0 110 300 0 0,
      bodyOf 0 300 300 0 0, bodyOf 0 310 300 0 0]"
    by (simp add: integrated_def fourCherries_def gameOf_def bodyOf_def field_def fruitTypes_def
      integrate_def applyFriction_def move_def rotate_def bounceX_def bounceY_def)
  then show ?thesis
    by (simp add: fourCherries_update overlapping_iff) (simp add: bodyOf_def fruitTypes_def)
qed

section \<open>Wall bounces and the pairwise scan\<close>

















text \<open>
  The condition on the diameter: a watermelon on a field of 100 by 100 is put tangent to
  the left wall, and then its centre lies beyond \<open>width - radius\<close>.
\<close>

lemma wide_body_tangent_but_outside:
  "x (fruits (update smallField fullGame) ! 0) = radius (fruits fullGame ! 0)
   \<and> \<not> x (fruits (update smallField fullGame) ! 0)
        \<le> real (width smallField) - radius (fruits fullGame ! 0)"
proof -
  have "fruits fullGame = [bodyOf 10 50 50 0 0]"
    by (simp add: fullGame_def gameOf_def)
  then show ?thesis
    by (simp add: update_lone integrate_x) (simp add: bodyOf_def fruitTypes_def smallField_def)
qed

section \<open>Occupancy\<close>

lemma foldl_area:
  "foldl (\<lambda>acc fruit. acc + pi * radius fruit * radius fruit) a fs =
    a + (\<Sum>f\<leftarrow>fs. pi * (radius f)\<^sup>2)"
  by (induction fs arbitrary: a) (simp_all add: power2_eq_square algebra_simps)

lemma occupiedArea_sum: "occupiedArea fs = (\<Sum>f\<leftarrow>fs. pi * (radius f)\<^sup>2)"
  by (simp add: occupiedArea_def foldl_area)

lemma occupiedArea_nonneg: "0 \<le> occupiedArea fs"
  unfolding occupiedArea_sum by (rule sum_list_nonneg) auto

lemma fill_positive_area:
  assumes "0 < width cv" and "0 < height cv"
  shows "calculateFillPercentage cv fs =
    Some (min 100 (100 * (\<Sum>f\<leftarrow>fs. pi * (radius f)\<^sup>2) / (real (width cv) * real (height cv))))"
  using assms by (simp add: calculateFillPercentage_def occupiedArea_sum min.commute mult.commute)

lemma fill_range:
  assumes "calculateFillPercentage cv fs = Some p"
  shows "0 \<le> p \<and> p \<le> 100"
proof (cases "width cv * height cv = 0")
  case True
  with assms show ?thesis
    by (simp add: calculateFillPercentage_def split: if_splits)
next
  case False
  then have "0 < real (width cv * height cv)" by simp
  then have "0 \<le> occupiedArea fs / real (width cv * height cv) * 100"
    using occupiedArea_nonneg [of fs] by simp
  with assms False show ?thesis
    by (auto simp: calculateFillPercentage_def)
qed

lemma next_tier_area:
  assumes "t < 10"
  shows "(radius (fruitTypes ! (t + 1)))\<^sup>2 < 2 * (radius (fruitTypes ! t))\<^sup>2"
proof -
  from assms have "t = 0 \<or> t = 1 \<or> t = 2 \<or> t = 3 \<or> t = 4 \<or> t = 5 \<or> t = 6 \<or> t = 7 \<or> t = 8 \<or> t = 9"
    by arith
  then show ?thesis
    by (elim disjE) (simp_all add: fruitTypes_def)
qed

lemma sum_list_split_pair:
  fixes g :: "'a \<Rightarrow> real"
  assumes "i < j" and "j < length xs"
  shows "sum_list (map g xs) =
    sum_list (map g (take i xs @ drop (Suc i) (take j xs) @ drop (Suc j) xs)) + g (xs ! i) + g (xs ! j)"
proof -
  have 1: "xs = take j xs @ xs ! j # drop (Suc j) xs"
    using assms(2) by (rule id_take_nth_drop)
  have "i < length (take j xs)" using assms by simp
  then have "take j xs = take i (take j xs) @ take j xs ! i # drop (Suc i) (take j xs)"
    by (rule id_take_nth_drop)
  then have 2: "take j xs = take i xs @ xs ! i # drop (Suc i) (take j xs)"
    using assms by (simp add: min_def)
  have "sum_list (map g xs) = sum_list (map g (take j xs)) + g (xs ! j) + sum_list (map g (drop (Suc j) xs))"
    by (subst 1) simp
  also have "sum_list (map g (take j xs)) =
      sum_list (map g (take i xs)) + g (xs ! i) + sum_list (map g (drop (Suc i) (take j xs)))"
    by (subst 2) simp
  finally show ?thesis by simp
qed

lemma merge_area:
  assumes ij: "i < j" "j < length (fruits s)"
    and ov: "overlapping (fruits s ! i) (fruits s ! j)"
    and ty: "typeIndex (fruits s ! i) = typeIndex (fruits s ! j)" "typeIndex (fruits s ! i) < 10"
    and cat: "radius (fruits s ! i) = radius (fruitTypes ! typeIndex (fruits s ! i))"
      "radius (fruits s ! j) = radius (fruitTypes ! typeIndex (fruits s ! j))"
  shows "occupiedArea (fruits (fst (collidePair i j s))) < occupiedArea (fruits s)"
proof -
  define t where "t = typeIndex (fruits s ! i)"
  define rest where "rest = take i (fruits s) @ drop (Suc i) (take j (fruits s)) @ drop (Suc j) (fruits s)"
  have fs': "fruits (fst (collidePair i j s)) = rest @
      [mergedFruit (fst (resolveOverlap (fruits s ! i) (fruits s ! j)))
                   (snd (resolveOverlap (fruits s ! i) (fruits s ! j)))]"
    unfolding collidePair_merge [OF ov ty] using ij by (simp add: splice_pair rest_def)
  have new: "occupiedArea (fruits (fst (collidePair i j s))) =
      occupiedArea rest + pi * (radius (fruitTypes ! (t + 1)))\<^sup>2"
    unfolding fs' occupiedArea_sum
    by (simp add: mergedFruit_fields resolveOverlap_fields t_def)
  have old: "occupiedArea (fruits s) = occupiedArea rest + pi * (radius (fruitTypes ! t))\<^sup>2
      + pi * (radius (fruitTypes ! t))\<^sup>2"
    unfolding occupiedArea_sum rest_def
    using sum_list_split_pair [OF ij, of "\<lambda>f. pi * (radius f)\<^sup>2"] cat ty
    by (simp add: t_def)
  have "pi * (radius (fruitTypes ! (t + 1)))\<^sup>2 < pi * (2 * (radius (fruitTypes ! t))\<^sup>2)"
    using next_tier_area [of t] ty(2) by (simp add: t_def)
  with new old show ?thesis by simp
qed

text \<open>
  C5, as amended: on a field of positive area the occupancy read is
  \<open>min 100 (100 \<cdot> (\<Sum> \<pi> \<cdot> r\<^sub>i\<^sup>2) / (width \<cdot> height))\<close>, so it lies in \<open>[0, 100]\<close>; and a
  merge of two bodies that carry the catalog radius of their tier never raises it: the
  area of the next tier is smaller than twice the area of the tier, so the value after
  the merge is at most the value before it, and smaller whenever that was below the cap.
\<close>

theorem occupancy_clamped_and_merge_never_raises:
  assumes area: "0 < width cv" "0 < height cv"
  shows "calculateFillPercentage cv fs =
      Some (min 100 (100 * (\<Sum>f\<leftarrow>fs. pi * (radius f)\<^sup>2) / (real (width cv) * real (height cv))))
    \<and> (\<exists>p. calculateFillPercentage cv fs = Some p \<and> 0 \<le> p \<and> p \<le> 100)
    \<and> (i < j \<and> j < length (fruits s) \<and> overlapping (fruits s ! i) (fruits s ! j)
        \<and> typeIndex (fruits s ! i) = typeIndex (fruits s ! j) \<and> typeIndex (fruits s ! i) < 10
        \<and> radius (fruits s ! i) = radius (fruitTypes ! typeIndex (fruits s ! i))
        \<and> radius (fruits s ! j) = radius (fruitTypes ! typeIndex (fruits s ! j))
       \<longrightarrow> (\<exists>p p'. calculateFillPercentage cv (fruits s) = Some p
              \<and> calculateFillPercentage cv (fruits (fst (collidePair i j s))) = Some p'
              \<and> p' \<le> p \<and> (p < 100 \<longrightarrow> p' < p)))"
proof (intro conjI impI)
  show "calculateFillPercentage cv fs =
      Some (min 100 (100 * (\<Sum>f\<leftarrow>fs. pi * (radius f)\<^sup>2) / (real (width cv) * real (height cv))))"
    by (rule fill_positive_area [OF area])
  then show "\<exists>p. calculateFillPercentage cv fs = Some p \<and> 0 \<le> p \<and> p \<le> 100"
    using fill_range by blast
next
  assume h: "i < j \<and> j < length (fruits s) \<and> overlapping (fruits s ! i) (fruits s ! j)
        \<and> typeIndex (fruits s ! i) = typeIndex (fruits s ! j) \<and> typeIndex (fruits s ! i) < 10
        \<and> radius (fruits s ! i) = radius (fruitTypes ! typeIndex (fruits s ! i))
        \<and> radius (fruits s ! j) = radius (fruitTypes ! typeIndex (fruits s ! j))"
  define A where "A = real (width cv * height cv)"
  have A: "0 < A" using area by (simp add: A_def)
  define a where "a = occupiedArea (fruits s)"
  define a' where "a' = occupiedArea (fruits (fst (collidePair i j s)))"
  have lt: "a' < a" unfolding a_def a'_def using h by (intro merge_area) simp_all
  have p: "calculateFillPercentage cv (fruits s) = Some (min (a / A * 100) 100)"
    and p': "calculateFillPercentage cv (fruits (fst (collidePair i j s))) = Some (min (a' / A * 100) 100)"
    using area by (simp_all add: calculateFillPercentage_def a_def a'_def A_def)
  have q: "a' / A * 100 < a / A * 100"
    using lt A by (simp add: divide_strict_right_mono)
  then have "min (a' / A * 100) 100 \<le> min (a / A * 100) 100"
    and "min (a / A * 100) 100 < 100 \<longrightarrow> min (a' / A * 100) 100 < min (a / A * 100) 100"
    by (auto simp: min_def)
  with p p' show "\<exists>p p'. calculateFillPercentage cv (fruits s) = Some p
              \<and> calculateFillPercentage cv (fruits (fst (collidePair i j s))) = Some p'
              \<and> p' \<le> p \<and> (p < 100 \<longrightarrow> p' < p)"
    by blast
qed

lemma cherryPair_fill:
  "calculateFillPercentage field (fruits cherryPair) = Some (3 * pi / 16)"
  using pi_less_4
  by (simp add: calculateFillPercentage_def occupiedArea_def cherryPair_def gameOf_def
      bodyOf_def field_def fruitTypes_def min_def)

lemma strawberry_fill:
  "calculateFillPercentage field [bodyOf (Suc 0) 105 300 0 0] = Some (pi / 6)"
  using pi_less_4
  by (simp add: calculateFillPercentage_def occupiedArea_def
      bodyOf_def field_def fruitTypes_def min_def)

theorem occupancy_clamped_and_merge_never_raises_witness:
  "0 < width field \<and> 0 < height field
   \<and> (0::nat) < 1 \<and> 1 < length (fruits cherryPair)
   \<and> overlapping (fruits cherryPair ! 0) (fruits cherryPair ! 1)
   \<and> typeIndex (fruits cherryPair ! 0) = typeIndex (fruits cherryPair ! 1)
   \<and> typeIndex (fruits cherryPair ! 0) < 10
   \<and> radius (fruits cherryPair ! 0) = radius (fruitTypes ! typeIndex (fruits cherryPair ! 0))
   \<and> radius (fruits cherryPair ! 1) = radius (fruitTypes ! typeIndex (fruits cherryPair ! 1))
   \<and> calculateFillPercentage field (fruits cherryPair) = Some (3 * pi / 16)
   \<and> (\<exists>p'. calculateFillPercentage field (fruits (fst (collidePair 0 1 cherryPair))) = Some p'
          \<and> p' < 3 * pi / 16)"
proof -
  have a: "0 < width field" "0 < height field" by (simp_all add: field_def)
  have ov: "overlapping (fruits cherryPair ! 0) (fruits cherryPair ! 1)"
    by (simp add: cherryPair_def gameOf_def overlapping_iff bodyOf_def fruitTypes_def)
  have ty: "(0::nat) < 1" "1 < length (fruits cherryPair)"
    "typeIndex (fruits cherryPair ! 0) = typeIndex (fruits cherryPair ! 1)"
    "typeIndex (fruits cherryPair ! 0) < 10"
    "radius (fruits cherryPair ! 0) = radius (fruitTypes ! typeIndex (fruits cherryPair ! 0))"
    "radius (fruits cherryPair ! 1) = radius (fruitTypes ! typeIndex (fruits cherryPair ! 1))"
    by (simp_all add: cherryPair_def gameOf_def bodyOf_def)
  have small: "3 * pi / 16 < 100" using pi_less_4 by simp
  from occupancy_clamped_and_merge_never_raises [OF a, of "fruits cherryPair" 0 1 cherryPair] ov ty
  obtain p p' where "calculateFillPercentage field (fruits cherryPair) = Some p"
    and "calculateFillPercentage field (fruits (fst (collidePair 0 1 cherryPair))) = Some p'"
    and "p < 100 \<longrightarrow> p' < p"
    by blast
  with cherryPair_fill small
  have "\<exists>p'. calculateFillPercentage field (fruits (fst (collidePair 0 1 cherryPair))) = Some p'
          \<and> p' < 3 * pi / 16"
    by simp
  with a ov ty cherryPair_fill show ?thesis by blast
qed

text \<open>
  The claim as stated (occupancy never drops under a merge) fails at the step that merges
  the two cherries: the occupancy falls from \<open>3\<pi>/16\<close> to \<open>\<pi>/6\<close> percent.
\<close>

theorem merge_lowers_occupancy_counterexample:
  "calculateFillPercentage field (fruits cherryPair) = Some (3 * pi / 16)
   \<and> calculateFillPercentage field (fruits (update field cherryPair)) = Some (pi / 6)
   \<and> pi / 6 < 3 * pi / 16"
  by (simp add: cherryPair_fill cherryPair_update strawberry_fill)

section \<open>Game over\<close>

lemma collidePair_frame:
  "fst (collidePair i j s) =
    s\<lparr>fruits := fruits (fst (collidePair i j s)), gscore := gscore (fst (collidePair i j s))\<rparr>"
  unfolding collidePair_def Let_def
  by (simp add: case_prod_unfold)

lemma innerLoop_frame:
  "innerLoop i j s = s\<lparr>fruits := fruits (innerLoop i j s), gscore := gscore (innerLoop i j s)\<rparr>"
proof (induction i j s rule: innerLoop.induct)
  case (1 i j s)
  show ?case
  proof (cases "j < length (fruits s)")
    case False
    then show ?thesis by (simp add: innerLoop_done)
  next
    case j: True
    show ?thesis
    proof (cases "snd (collidePair i j s)")
      case True
      with j show ?thesis
        using collidePair_frame [of i j s] by (simp add: innerLoop_break)
    next
      case False
      from "1.IH" [OF j False]
      have "innerLoop i (j + 1) (fst (collidePair i j s)) =
        fst (collidePair i j s)\<lparr>fruits := fruits (innerLoop i (j + 1) (fst (collidePair i j s))),
          gscore := gscore (innerLoop i (j + 1) (fst (collidePair i j s)))\<rparr>" .
      also have "\<dots> = s\<lparr>fruits := fruits (innerLoop i (j + 1) (fst (collidePair i j s))),
          gscore := gscore (innerLoop i (j + 1) (fst (collidePair i j s)))\<rparr>"
        by (subst collidePair_frame) simp
      finally show ?thesis using j False by (simp add: innerLoop_next)
    qed
  qed
qed

lemma outerLoop_frame:
  "outerLoop i s = s\<lparr>fruits := fruits (outerLoop i s), gscore := gscore (outerLoop i s)\<rparr>"
proof (induction i s rule: outerLoop.induct)
  case (1 i s)
  show ?case
  proof (cases "i < length (fruits s)")
    case False
    then show ?thesis by (simp add: outerLoop_done)
  next
    case True
    from "1.IH" [OF True]
    have "outerLoop (i + 1) (innerLoop i (i + 1) s) =
      innerLoop i (i + 1) s\<lparr>fruits := fruits (outerLoop (i + 1) (innerLoop i (i + 1) s)),
        gscore := gscore (outerLoop (i + 1) (innerLoop i (i + 1) s))\<rparr>" .
    also have "\<dots> = s\<lparr>fruits := fruits (outerLoop (i + 1) (innerLoop i (i + 1) s)),
        gscore := gscore (outerLoop (i + 1) (innerLoop i (i + 1) s))\<rparr>"
      by (subst innerLoop_frame) simp
    finally show ?thesis using True by (simp add: outerLoop_next)
  qed
qed

lemma update_frame:
  "update cv s = s\<lparr>fruits := fruits (update cv s), gscore := gscore (update cv s),
    updateCalls := updateCalls s + 1\<rparr>"
  unfolding update_def
  by (subst outerLoop_frame) simp

lemma update_fields:
  "gameOver (update cv s) = gameOver s"
  "gameOverFirings (update cv s) = gameOverFirings s"
  "updateCalls (update cv s) = updateCalls s + 1"
  "fruitToLaunch (update cv s) = fruitToLaunch s"
  "fruitInQueue (update cv s) = fruitInQueue s"
  by (subst update_frame, simp)+

lemma drawFillGauge_fields:
  "fruits (drawFillGauge cv s) = fruits s"
  "updateCalls (drawFillGauge cv s) = updateCalls s"
  "fruitToLaunch (drawFillGauge cv s) = fruitToLaunch s"
  "fruitInQueue (drawFillGauge cv s) = fruitInQueue s"
  by (simp_all add: drawFillGauge_def split: option.splits)

lemma drawFillGauge_over: "gameOver s \<Longrightarrow> drawFillGauge cv s = s"
  by (simp add: drawFillGauge_def split: option.splits)

lemma drawFillGauge_fires:
  "\<not> gameOver s \<Longrightarrow>
    gameOver (drawFillGauge cv s) = (\<exists>p. calculateFillPercentage cv (fruits s) = Some p \<and> 90 \<le> p)"
  "\<not> gameOver s \<Longrightarrow>
    gameOverFirings (drawFillGauge cv s) =
      (if gameOver (drawFillGauge cv s) then gameOverFirings s + 1 else gameOverFirings s)"
  by (auto simp: drawFillGauge_def split: option.splits)

lemma gameLoop_over: "gameOver s \<Longrightarrow> gameLoop cv s = s"
  by (simp add: gameLoop_def)

lemma gameLoop_fires:
  assumes "\<not> gameOver s"
  shows "gameOver (gameLoop cv s) =
      (\<exists>p. calculateFillPercentage cv (fruits (update cv s)) = Some p \<and> 90 \<le> p)"
    and "gameOverFirings (gameLoop cv s) =
      (if gameOver (gameLoop cv s) then gameOverFirings s + 1 else gameOverFirings s)"
    and "updateCalls (gameLoop cv s) = updateCalls s + 1"
  using assms
  by (simp_all add: gameLoop_def drawFillGauge_fires update_fields drawFillGauge_fields)

lemma prepareNextFruit_fields:
  "gameOver (prepareNextFruit cv u s) = gameOver s"
  "gameOverFirings (prepareNextFruit cv u s) = gameOverFirings s"
  "updateCalls (prepareNextFruit cv u s) = updateCalls s"
  "fruits (prepareNextFruit cv u s) = fruits s"
  "gscore (prepareNextFruit cv u s) = gscore s"
  "fruitInQueue (prepareNextFruit cv u s) = generateRandomFruit u"
  by (simp_all add: prepareNextFruit_def Let_def)

lemma mousedown_fields:
  "gameOver (mousedown s) = gameOver s"
  "gameOverFirings (mousedown s) = gameOverFirings s"
  "updateCalls (mousedown s) = updateCalls s"
  "fruitInQueue (mousedown s) = fruitInQueue s"
  by (simp_all add: mousedown_def Let_def split: option.splits)

lemma step_over:
  assumes "gameOver s" and "\<not> isRestart e"
  shows "gameOver (step cv e s) \<and> updateCalls (step cv e s) = updateCalls s
    \<and> gameOverFirings (step cv e s) = gameOverFirings s"
  using assms
  by (cases e) (simp_all add: mousedown_fields prepareNextFruit_fields gameLoop_over)

lemma run_over:
  assumes "gameOver s" and "\<forall>e \<in> set es. \<not> isRestart e"
  shows "gameOver (run cv es s) \<and> updateCalls (run cv es s) = updateCalls s
    \<and> gameOverFirings (run cv es s) = gameOverFirings s"
  using assms
proof (induction es arbitrary: s)
  case Nil
  then show ?case by simp
next
  case (Cons e es)
  from Cons.prems have e: "\<not> isRestart e" and es: "\<forall>e \<in> set es. \<not> isRestart e" by simp_all
  note st = step_over [OF Cons.prems(1) e, of cv]
  from Cons.IH [of "step cv e s"] st es show ?case by simp
qed

lemma step_fires_once:
  assumes "\<not> gameOver s" and "\<not> isRestart e"
  shows "gameOverFirings (step cv e s) =
    (if gameOver (step cv e s) then gameOverFirings s + 1 else gameOverFirings s)"
proof (cases e)
  case Frame
  with assms show ?thesis using gameLoop_fires(2) [of s cv] by simp
qed (use assms in \<open>simp_all add: mousedown_fields prepareNextFruit_fields\<close>)

lemma run_fires_at_most_once:
  assumes "\<forall>e \<in> set es. \<not> isRestart e"
  shows "gameOverFirings (run cv es s) \<le> gameOverFirings s + 1"
  using assms
proof (induction es arbitrary: s)
  case Nil
  then show ?case by simp
next
  case (Cons e es)
  from Cons.prems have e: "\<not> isRestart e" and es: "\<forall>e \<in> set es. \<not> isRestart e" by simp_all
  show ?case
  proof (cases "gameOver s")
    case True
    from run_over [OF True Cons.prems, of cv] show ?thesis by simp
  next
    case False
    note f = step_fires_once [OF False e, of cv]
    show ?thesis
    proof (cases "gameOver (step cv e s)")
      case True
      from run_over [OF True es, of cv] f True show ?thesis by simp
    next
      case False
      with f Cons.IH [OF es, of "step cv e s"] show ?thesis by simp
    qed
  qed
qed

text \<open>
  C2: in a frame that starts with the game not over, the game is over afterwards exactly
  when the occupancy computed in that frame (after its simulation step) is at least 90,
  and then the transition is counted once. A frame that starts with the game over returns
  at once: no simulation step, no transition. Over any sequence of events without a
  restart the transition is taken at most once, and once the game is over it stays over,
  no further \<^verbatim>\<open>update\<close> call happens and the transition is not taken again.
\<close>

theorem game_over_is_edge_triggered_and_terminal:
  "(\<not> gameOver s \<longrightarrow>
      gameOver (gameLoop cv s) =
        (\<exists>p. calculateFillPercentage cv (fruits (update cv s)) = Some p \<and> 90 \<le> p)
      \<and> gameOverFirings (gameLoop cv s) =
          (if gameOver (gameLoop cv s) then gameOverFirings s + 1 else gameOverFirings s)
      \<and> updateCalls (gameLoop cv s) = updateCalls s + 1)
   \<and> (gameOver s \<longrightarrow> gameLoop cv s = s)
   \<and> ((\<forall>e \<in> set es. \<not> isRestart e) \<longrightarrow>
        gameOverFirings (run cv es s) \<le> gameOverFirings s + 1
        \<and> (gameOver s \<longrightarrow>
             gameOver (run cv es s)
             \<and> updateCalls (run cv es s) = updateCalls s
             \<and> gameOverFirings (run cv es s) = gameOverFirings s))"
  using gameLoop_fires [of s cv] gameLoop_over [of s cv]
    run_fires_at_most_once [of es cv s] run_over [of s es cv]
  by blast

lemma fullGame_fill:
  "calculateFillPercentage smallField (fruits (update smallField fullGame)) = Some 100"
proof -
  have "fruits fullGame = [bodyOf 10 50 50 0 0]"
    by (simp add: fullGame_def gameOf_def)
  then have "fruits (update smallField fullGame) = [integrate smallField (bodyOf 10 50 50 0 0)]"
    by (simp add: update_lone)
  moreover have "radius (bodyOf 10 50 50 0 0) = 120"
    by (simp add: bodyOf_def fruitTypes_def)
  moreover have "100 \<le> pi * 144" using pi_ge_two by simp
  ultimately show ?thesis
    by (simp add: calculateFillPercentage_def occupiedArea_def smallField_def min_def)
qed

theorem game_over_is_edge_triggered_and_terminal_witness:
  "\<not> gameOver fullGame
   \<and> calculateFillPercentage smallField (fruits (update smallField fullGame)) = Some 100
   \<and> gameOver (gameLoop smallField fullGame)
   \<and> gameOverFirings (gameLoop smallField fullGame) = gameOverFirings fullGame + 1
   \<and> updateCalls (gameLoop smallField fullGame) = updateCalls fullGame + 1
   \<and> \<not> isRestart Frame \<and> \<not> isRestart MouseDown \<and> \<not> isRestart (MouseMove 3 4)
   \<and> gameOver (run smallField [Frame, MouseMove 3 4, MouseDown, Frame] (gameLoop smallField fullGame))
   \<and> updateCalls (run smallField [Frame, MouseMove 3 4, MouseDown, Frame] (gameLoop smallField fullGame))
        = updateCalls fullGame + 1
   \<and> gameOverFirings (run smallField [Frame, MouseMove 3 4, MouseDown, Frame] (gameLoop smallField fullGame))
        = gameOverFirings fullGame + 1"
proof -
  have n: "\<not> gameOver fullGame" by (simp add: fullGame_def gameOf_def)
  have r: "\<forall>e \<in> set [Frame, MouseMove 3 4, MouseDown, Frame]. \<not> isRestart e" by simp
  note a = game_over_is_edge_triggered_and_terminal [of fullGame smallField "[]"]
  have over: "gameOver (gameLoop smallField fullGame)"
    and cnt: "gameOverFirings (gameLoop smallField fullGame) = gameOverFirings fullGame + 1"
      "updateCalls (gameLoop smallField fullGame) = updateCalls fullGame + 1"
    using a n fullGame_fill by simp_all
  note b = game_over_is_edge_triggered_and_terminal
    [of "gameLoop smallField fullGame" smallField "[Frame, MouseMove 3 4, MouseDown, Frame]"]
  from b r over have "gameOver (run smallField [Frame, MouseMove 3 4, MouseDown, Frame] (gameLoop smallField fullGame))
    \<and> updateCalls (run smallField [Frame, MouseMove 3 4, MouseDown, Frame] (gameLoop smallField fullGame))
        = updateCalls (gameLoop smallField fullGame)
    \<and> gameOverFirings (run smallField [Frame, MouseMove 3 4, MouseDown, Frame] (gameLoop smallField fullGame))
        = gameOverFirings (gameLoop smallField fullGame)"
    by blast
  with n over cnt fullGame_fill show ?thesis by simp
qed

section \<open>Tier indices\<close>

lemma set_splice1: "set (splice1 k xs) \<subseteq> set xs"
  by (auto simp: splice1_def dest: in_set_takeD in_set_dropD)

lemma collidePair_tiers:
  assumes i: "i < length (fruits s)" and j: "j < length (fruits s)"
    and ok: "\<forall>f \<in> set (fruits s). typeIndex f < length fruitTypes"
  shows "\<forall>f \<in> set (fruits (fst (collidePair i j s))). typeIndex f < length fruitTypes"
proof (cases "overlapping (fruits s ! i) (fruits s ! j)")
  case False
  then show ?thesis using ok by (simp add: collidePair_apart)
next
  case ov: True
  define f1 where "f1 = fst (resolveOverlap (fruits s ! i) (fruits s ! j))"
  define f2 where "f2 = snd (resolveOverlap (fruits s ! i) (fruits s ! j))"
  have t1: "typeIndex f1 < length fruitTypes" and t2: "typeIndex f2 < length fruitTypes"
    using i j ok by (simp_all add: f1_def f2_def resolveOverlap_fields)
  have upd: "\<forall>f \<in> set ((fruits s)[i := f1, j := f2]). typeIndex f < length fruitTypes"
  proof
    fix f assume "f \<in> set ((fruits s)[i := f1, j := f2])"
    then have "f = f2 \<or> f = f1 \<or> f \<in> set (fruits s)"
      using set_update_subset_insert [of "(fruits s)[i := f1]" j f2]
        set_update_subset_insert [of "fruits s" i f1] by auto
    with t1 t2 ok show "typeIndex f < length fruitTypes" by auto
  qed
  show ?thesis
  proof (cases "typeIndex (fruits s ! i) = typeIndex (fruits s ! j) \<and> typeIndex (fruits s ! i) < 10")
    case False
    then have "collidePair i j s = (s\<lparr>fruits := (fruits s)[i := f1, j := f2]\<rparr>, False)"
      unfolding f1_def f2_def using ov by (intro collidePair_bounce) auto
    with upd show ?thesis by simp
  next
    case True
    then have c: "fruits (fst (collidePair i j s)) =
        splice1 i (splice1 j ((fruits s)[i := f1, j := f2])) @ [mergedFruit f1 f2]"
      unfolding f1_def f2_def using ov by (simp add: collidePair_merge)
    have "typeIndex (mergedFruit f1 f2) < length fruitTypes"
      using True by (simp add: mergedFruit_fields f1_def resolveOverlap_fields length_fruitTypes)
    moreover have "set (splice1 i (splice1 j ((fruits s)[i := f1, j := f2])))
        \<subseteq> set ((fruits s)[i := f1, j := f2])"
      using set_splice1 by (rule subset_trans) (rule set_splice1)
    ultimately show ?thesis using upd unfolding c by auto
  qed
qed

lemma innerLoop_tiers:
  "i < j \<Longrightarrow> \<forall>f \<in> set (fruits s). typeIndex f < length fruitTypes
    \<Longrightarrow> \<forall>f \<in> set (fruits (innerLoop i j s)). typeIndex f < length fruitTypes"
proof (induction i j s rule: innerLoop.induct)
  case (1 i j s)
  show ?case
  proof (cases "j < length (fruits s)")
    case False
    with "1.prems" show ?thesis by (simp add: innerLoop_done)
  next
    case j: True
    with "1.prems" have i: "i < length (fruits s)" by simp
    note c = collidePair_tiers [OF i j "1.prems"(2)]
    show ?thesis
    proof (cases "snd (collidePair i j s)")
      case True
      with j c show ?thesis by (simp add: innerLoop_break)
    next
      case False
      from "1.IH" [OF j False _ c] "1.prems"(1)
      have "\<forall>f \<in> set (fruits (innerLoop i (j + 1) (fst (collidePair i j s)))).
        typeIndex f < length fruitTypes" by simp
      with j False show ?thesis by (simp add: innerLoop_next)
    qed
  qed
qed

lemma outerLoop_tiers:
  "\<forall>f \<in> set (fruits s). typeIndex f < length fruitTypes
    \<Longrightarrow> \<forall>f \<in> set (fruits (outerLoop i s)). typeIndex f < length fruitTypes"
proof (induction i s rule: outerLoop.induct)
  case (1 i s)
  show ?case
  proof (cases "i < length (fruits s)")
    case False
    with "1.prems" show ?thesis by (simp add: outerLoop_done)
  next
    case True
    have "\<forall>f \<in> set (fruits (innerLoop i (i + 1) s)). typeIndex f < length fruitTypes"
      using "1.prems" by (intro innerLoop_tiers) simp_all
    from "1.IH" [OF True this] True show ?thesis by (simp add: outerLoop_next)
  qed
qed

lemma update_tiers:
  "\<forall>f \<in> set (fruits s). typeIndex f < length fruitTypes
    \<Longrightarrow> \<forall>f \<in> set (fruits (update cv s)). typeIndex f < length fruitTypes"
  unfolding update_def by (rule outerLoop_tiers) simp

lemma generateRandomFruit_tier:
  assumes "0 \<le> u" and "u < 1"
  shows "typeIndex (generateRandomFruit u) < 5"
proof -
  have "\<lfloor>u * 5\<rfloor> < 5" using assms by (simp add: floor_less_iff)
  then have "nat \<lfloor>u * 5\<rfloor> < 5" by linarith
  then show ?thesis by (simp add: generateRandomFruit_def Let_def)
qed

lemma update_inv: "tiersInCatalog s \<Longrightarrow> tiersInCatalog (update cv s)"
  using update_tiers [of s cv] by (simp add: tiersInCatalog_def update_fields)

lemma drawFillGauge_inv: "tiersInCatalog s \<Longrightarrow> tiersInCatalog (drawFillGauge cv s)"
  by (simp add: tiersInCatalog_def drawFillGauge_fields)

lemma gameLoop_inv: "tiersInCatalog s \<Longrightarrow> tiersInCatalog (gameLoop cv s)"
  by (simp add: gameLoop_def update_inv drawFillGauge_inv)

lemma prepareNextFruit_inv:
  assumes "0 \<le> u" and "u < 1"
    and "\<forall>f \<in> set (fruits s). typeIndex f < length fruitTypes"
    and "typeIndex (fruitInQueue s) < 5"
  shows "tiersInCatalog (prepareNextFruit cv u s)"
  using assms generateRandomFruit_tier [of u]
  by (simp add: tiersInCatalog_def prepareNextFruit_def Let_def)

lemma mousedown_inv: "tiersInCatalog s \<Longrightarrow> tiersInCatalog (mousedown s)"
  by (auto simp: tiersInCatalog_def mousedown_def Let_def length_fruitTypes split: option.splits)

lemma init_inv:
  assumes "0 \<le> u1" and "u1 < 1" and "0 \<le> u2" and "u2 < 1"
  shows "tiersInCatalog (init cv u1 u2 s)"
  unfolding init_def
  using assms generateRandomFruit_tier [of u1]
  by (intro gameLoop_inv prepareNextFruit_inv) simp_all

lemma step_inv:
  assumes "tiersInCatalog s" and "randomsOk e"
  shows "tiersInCatalog (step cv e s)"
proof (cases e)
  case (MouseMove mx my)
  with assms show ?thesis by (simp add: tiersInCatalog_def)
next
  case MouseDown
  with assms show ?thesis by (simp add: mousedown_inv)
next
  case (SpawnTimeout u)
  with assms have u: "0 \<le> u" "u < 1" by simp_all
  have "tiersInCatalog (prepareNextFruit cv u (s\<lparr>spawnTimers := spawnTimers s - 1\<rparr>))"
    using assms(1) by (intro prepareNextFruit_inv u) (simp_all add: tiersInCatalog_def)
  with SpawnTimeout assms(1) show ?thesis by simp
next
  case Frame
  with assms show ?thesis by (simp add: gameLoop_inv)
next
  case (Restart u1 u2)
  with assms show ?thesis by (simp add: init_inv)
qed

lemma reachable_inv: "reachable cv s \<Longrightarrow> tiersInCatalog s"
  by (induction rule: reachable.induct) (simp_all add: init_inv step_inv)

text \<open>
  C10: in every state reachable through spawns, launches, simulation steps and restarts,
  every active body has a tier index between 0 and 10, the last index of the catalog;
  the pending body and the queued tier have an index between 0 and 4.
\<close>

theorem reachable_tiers_in_catalog:
  assumes "reachable cv s"
  shows "(\<forall>f \<in> set (fruits s). 0 \<le> typeIndex f \<and> typeIndex f \<le> 10
            \<and> typeIndex f \<le> length fruitTypes - 1)
    \<and> (\<forall>f. fruitToLaunch s = Some f \<longrightarrow> typeIndex f \<le> 4)
    \<and> typeIndex (fruitInQueue s) \<le> 4"
  using reachable_inv [OF assms]
  by (auto simp: tiersInCatalog_def length_fruitTypes)

theorem reachable_tiers_in_catalog_witness:
  "reachable field launchedGame
   \<and> length (fruits launchedGame) = 1
   \<and> typeIndex (fruits launchedGame ! 0) \<le> 10
   \<and> fruitToLaunch launchedGame = None
   \<and> typeIndex (fruitInQueue launchedGame) \<le> 4"
proof -
  have r: "reachable field launchedGame"
    unfolding launchedGame_def
    by (rule reach_step, rule reach_init) simp_all
  have p: "\<exists>f. fruitToLaunch (init field (1 / 2) (1 / 2) (gameOf [] None (250, 400))) = Some f"
    by (simp add: init_def gameLoop_def update_fields drawFillGauge_fields
        prepareNextFruit_def Let_def gameOf_def)
  have e: "fruits (init field (1 / 2) (1 / 2) (gameOf [] None (250, 400))) = []"
    by (simp add: init_def gameLoop_def drawFillGauge_fields prepareNextFruit_def Let_def
        gameOf_def update_noOverlap noOverlap_def)
  have l: "length (fruits launchedGame) = 1" and n: "fruitToLaunch launchedGame = None"
    using p e by (auto simp: launchedGame_def mousedown_def Let_def)
  then have "fruits launchedGame ! 0 \<in> set (fruits launchedGame)" by simp
  with reachable_tiers_in_catalog [OF r] r l n show ?thesis by blast
qed

section \<open>Spawn placement\<close>

lemma isOverlapping_iff:
  "isOverlapping fs px py r \<longleftrightarrow>
    (\<exists>f \<in> set fs. sqrt ((px - x f)\<^sup>2 + (py - y f)\<^sup>2) < r + radius f)"
  by (induction fs) (auto simp: Let_def power2_eq_square)

lemma searchLoop_right:
  "cx + off + r < real (width cv) \<Longrightarrow> \<not> isOverlapping fs (cx + off) cy r
    \<Longrightarrow> searchLoop cv fs cx cy r off = cx + off"
  by (simp add: searchLoop.simps [of cv fs cx cy r off])

lemma searchLoop_left:
  "\<not> (cx + off + r < real (width cv) \<and> \<not> isOverlapping fs (cx + off) cy r)
    \<Longrightarrow> cx - off - r > 0 \<Longrightarrow> \<not> isOverlapping fs (cx - off) cy r
    \<Longrightarrow> searchLoop cv fs cx cy r off = cx - off"
  by (subst searchLoop.simps) (auto simp: Let_def)

lemma searchLoop_next:
  "\<not> (cx + off + r < real (width cv) \<and> \<not> isOverlapping fs (cx + off) cy r)
    \<Longrightarrow> \<not> (cx - off - r > 0 \<and> \<not> isOverlapping fs (cx - off) cy r)
    \<Longrightarrow> searchLoop cv fs cx cy r off =
      (if cx - (off + 5) < 0 \<and> cx + (off + 5) > real (width cv) then cx
       else searchLoop cv fs cx cy r (off + 5))"
  by (subst searchLoop.simps) (auto simp: Let_def)

lemma searchLoop_found:
  assumes "0 \<le> r" and "0 \<le> off"
    and "\<forall>m < n. \<not> (cx + (off + 5 * real m) + r < real (width cv)
                     \<and> \<not> isOverlapping fs (cx + (off + 5 * real m)) cy r)
                \<and> \<not> (cx - (off + 5 * real m) - r > 0
                     \<and> \<not> isOverlapping fs (cx - (off + 5 * real m)) cy r)"
    and "(cx + (off + 5 * real n) + r < real (width cv)
            \<and> \<not> isOverlapping fs (cx + (off + 5 * real n)) cy r)
         \<or> (cx - (off + 5 * real n) - r > 0
            \<and> \<not> isOverlapping fs (cx - (off + 5 * real n)) cy r)"
  shows "searchLoop cv fs cx cy r off =
    (if cx + (off + 5 * real n) + r < real (width cv)
        \<and> \<not> isOverlapping fs (cx + (off + 5 * real n)) cy r
     then cx + (off + 5 * real n) else cx - (off + 5 * real n))"
  using assms
proof (induction n arbitrary: off)
  case 0
  then show ?case
    by (auto simp: searchLoop_right searchLoop_left)
next
  case (Suc n)
  from Suc.prems(3) have no0: "\<not> (cx + off + r < real (width cv) \<and> \<not> isOverlapping fs (cx + off) cy r)"
    "\<not> (cx - off - r > 0 \<and> \<not> isOverlapping fs (cx - off) cy r)"
    by (auto dest: spec [of _ 0])
  have shift: "off + 5 + 5 * real m = off + 5 * real (Suc m)" for m
    by simp
  have inb: "cx + (off + 5 * real (Suc n)) + r < real (width cv) \<or> cx - (off + 5 * real (Suc n)) - r > 0"
    using Suc.prems(4) by blast
  have nobreak: "\<not> (cx - (off + 5) < 0 \<and> cx + (off + 5) > real (width cv))"
    using inb Suc.prems(1) by auto
  have IH: "searchLoop cv fs cx cy r (off + 5) =
    (if cx + (off + 5 + 5 * real n) + r < real (width cv)
        \<and> \<not> isOverlapping fs (cx + (off + 5 + 5 * real n)) cy r
     then cx + (off + 5 + 5 * real n) else cx - (off + 5 + 5 * real n))"
  proof (rule Suc.IH)
    show "0 \<le> r" by fact
    show "0 \<le> off + 5" using Suc.prems(2) by simp
    show "\<forall>m<n. \<not> (cx + (off + 5 + 5 * real m) + r < real (width cv)
                     \<and> \<not> isOverlapping fs (cx + (off + 5 + 5 * real m)) cy r)
                \<and> \<not> (cx - (off + 5 + 5 * real m) - r > 0
                     \<and> \<not> isOverlapping fs (cx - (off + 5 + 5 * real m)) cy r)"
      unfolding shift using Suc.prems(3) by (meson Suc_less_eq)
    show "(cx + (off + 5 + 5 * real n) + r < real (width cv)
            \<and> \<not> isOverlapping fs (cx + (off + 5 + 5 * real n)) cy r)
         \<or> (cx - (off + 5 + 5 * real n) - r > 0
            \<and> \<not> isOverlapping fs (cx - (off + 5 + 5 * real n)) cy r)"
      unfolding shift using Suc.prems(4) .
  qed
  show ?case
    unfolding searchLoop_next [OF no0] using nobreak IH
    by (simp only: shift if_False)
qed

lemma searchLoop_fallback:
  assumes "\<forall>m. \<not> (cx + (off + 5 * real m) + r < real (width cv)
                     \<and> \<not> isOverlapping fs (cx + (off + 5 * real m)) cy r)
                \<and> \<not> (cx - (off + 5 * real m) - r > 0
                     \<and> \<not> isOverlapping fs (cx - (off + 5 * real m)) cy r)"
  shows "searchLoop cv fs cx cy r off = cx"
  using assms
proof (induction cv fs cx cy r off rule: searchLoop.induct)
  case (1 cv fs cx cy r off)
  from "1.prems" have no0: "\<not> (cx + off + r < real (width cv) \<and> \<not> isOverlapping fs (cx + off) cy r)"
    "\<not> (cx - off - r > 0 \<and> \<not> isOverlapping fs (cx - off) cy r)"
    by (auto dest: spec [of _ 0])
  show ?case
  proof (cases "cx - (off + 5) < 0 \<and> cx + (off + 5) > real (width cv)")
    case True
    then show ?thesis unfolding searchLoop_next [OF no0] by simp
  next
    case False
    have shift: "off + 5 + 5 * real m = off + 5 * real (Suc m)" for m
      by simp
    have "searchLoop cv fs cx cy r (off + 5) = cx"
    proof (rule "1.IH" [OF refl _ refl _ refl])
      show "\<not> (cx + off + r < real (width cv) \<and> \<not> isOverlapping fs (cx + off) cy r)"
        using no0 by blast
      show "\<not> (0 < cx - off - r \<and> \<not> isOverlapping fs (cx - off) cy r)"
        using no0 by blast
      show "\<not> (cx - (off + 5) < 0 \<and> real (width cv) < cx + (off + 5))"
        using False by blast
      show "\<forall>m. \<not> (cx + (off + 5 + 5 * real m) + r < real (width cv)
                     \<and> \<not> isOverlapping fs (cx + (off + 5 + 5 * real m)) cy r)
                \<and> \<not> (cx - (off + 5 + 5 * real m) - r > 0
                     \<and> \<not> isOverlapping fs (cx - (off + 5 + 5 * real m)) cy r)"
        unfolding shift using "1.prems" by blast
    qed
    with False show ?thesis unfolding searchLoop_next [OF no0] by simp
  qed
qed

lemma acceptable_right:
  assumes "0 \<le> r" and "0 < off"
  shows "acceptable cv fs py r (real (width cv) / 2 + off) \<longleftrightarrow>
    real (width cv) / 2 + off + r < real (width cv)
    \<and> \<not> isOverlapping fs (real (width cv) / 2 + off) py r"
  using assms by (auto simp: acceptable_def)

lemma acceptable_left:
  assumes "0 \<le> r" and "0 < off"
  shows "acceptable cv fs py r (real (width cv) / 2 - off) \<longleftrightarrow>
    real (width cv) / 2 - off - r > 0
    \<and> \<not> isOverlapping fs (real (width cv) / 2 - off) py r"
  using assms by (auto simp: acceptable_def)

lemma searchLoop_first_acceptable:
  assumes r: "0 \<le> r" and k: "1 \<le> k"
    and first: "\<forall>m. 1 \<le> m \<and> m < k \<longrightarrow>
        \<not> acceptable cv fs py r (real (width cv) / 2 + 5 * real m)
        \<and> \<not> acceptable cv fs py r (real (width cv) / 2 - 5 * real m)"
    and acc: "acceptable cv fs py r (real (width cv) / 2 + 5 * real k)
        \<or> acceptable cv fs py r (real (width cv) / 2 - 5 * real k)"
  shows "searchLoop cv fs (real (width cv) / 2) py r 5 =
    (if acceptable cv fs py r (real (width cv) / 2 + 5 * real k)
     then real (width cv) / 2 + 5 * real k else real (width cv) / 2 - 5 * real k)"
proof -
  define c where "c = real (width cv) / 2"
  obtain n where n: "k = Suc n" using k by (cases k) simp_all
  have off: "5 + 5 * real m = 5 * real (Suc m)" for m by simp
  have pos: "0 < 5 * real (Suc m)" for m by simp
  have R: "acceptable cv fs py r (c + 5 * real (Suc m)) \<longleftrightarrow>
      c + (5 + 5 * real m) + r < real (width cv) \<and> \<not> isOverlapping fs (c + (5 + 5 * real m)) py r" for m
    unfolding off c_def by (rule acceptable_right [OF r pos])
  have L: "acceptable cv fs py r (c - 5 * real (Suc m)) \<longleftrightarrow>
      c - (5 + 5 * real m) - r > 0 \<and> \<not> isOverlapping fs (c - (5 + 5 * real m)) py r" for m
    unfolding off c_def by (rule acceptable_left [OF r pos])
  have "searchLoop cv fs c py r 5 =
    (if c + (5 + 5 * real n) + r < real (width cv) \<and> \<not> isOverlapping fs (c + (5 + 5 * real n)) py r
     then c + (5 + 5 * real n) else c - (5 + 5 * real n))"
  proof (rule searchLoop_found)
    show "0 \<le> r" by fact
    show "(0::real) \<le> 5" by simp
    show "\<forall>m<n. \<not> (c + (5 + 5 * real m) + r < real (width cv)
                     \<and> \<not> isOverlapping fs (c + (5 + 5 * real m)) py r)
                \<and> \<not> (c - (5 + 5 * real m) - r > 0
                     \<and> \<not> isOverlapping fs (c - (5 + 5 * real m)) py r)"
    proof (intro allI impI)
      fix m assume "m < n"
      then have "1 \<le> Suc m \<and> Suc m < k" using n by simp
      with first have "\<not> acceptable cv fs py r (c + 5 * real (Suc m))
        \<and> \<not> acceptable cv fs py r (c - 5 * real (Suc m))"
        unfolding c_def by blast
      then show "\<not> (c + (5 + 5 * real m) + r < real (width cv)
                     \<and> \<not> isOverlapping fs (c + (5 + 5 * real m)) py r)
                \<and> \<not> (c - (5 + 5 * real m) - r > 0
                     \<and> \<not> isOverlapping fs (c - (5 + 5 * real m)) py r)"
        unfolding R L .
    qed
    show "(c + (5 + 5 * real n) + r < real (width cv)
            \<and> \<not> isOverlapping fs (c + (5 + 5 * real n)) py r)
         \<or> (c - (5 + 5 * real n) - r > 0
            \<and> \<not> isOverlapping fs (c - (5 + 5 * real n)) py r)"
      using acc unfolding n c_def [symmetric] R L .
  qed
  then show ?thesis
    unfolding n c_def [symmetric] R off .
qed

lemma searchLoop_none_acceptable:
  assumes r: "0 \<le> r"
    and none: "\<forall>k. 1 \<le> k \<longrightarrow>
        \<not> acceptable cv fs py r (real (width cv) / 2 + 5 * real k)
        \<and> \<not> acceptable cv fs py r (real (width cv) / 2 - 5 * real k)"
  shows "searchLoop cv fs (real (width cv) / 2) py r 5 = real (width cv) / 2"
proof (rule searchLoop_fallback, intro allI)
  fix m
  define c where "c = real (width cv) / 2"
  have off: "5 + 5 * real m = 5 * real (Suc m)" by simp
  have pos: "0 < 5 * real (Suc m)" by simp
  have "1 \<le> Suc m" by simp
  with none have "\<not> acceptable cv fs py r (c + 5 * real (Suc m))
      \<and> \<not> acceptable cv fs py r (c - 5 * real (Suc m))"
    unfolding c_def by blast
  then show "\<not> (real (width cv) / 2 + (5 + 5 * real m) + r < real (width cv)
                     \<and> \<not> isOverlapping fs (real (width cv) / 2 + (5 + 5 * real m)) py r)
                \<and> \<not> (real (width cv) / 2 - (5 + 5 * real m) - r > 0
                     \<and> \<not> isOverlapping fs (real (width cv) / 2 - (5 + 5 * real m)) py r)"
    unfolding off c_def acceptable_right [OF r pos] acceptable_left [OF r pos] .
qed

lemma prepareNextFruit_pending:
  "fruitToLaunch (prepareNextFruit cv u s) = Some
    \<lparr>rank = rank (fruitInQueue s), radius = radius (fruitInQueue s),
     color = color (fruitInQueue s), name = name (fruitInQueue s),
     score = score (fruitInQueue s), typeIndex = typeIndex (fruitInQueue s),
     x = (if isOverlapping (fruits s) (real (width cv) / 2) (real (height cv) - 50) (radius (fruitInQueue s))
          then searchLoop cv (fruits s) (real (width cv) / 2) (real (height cv) - 50) (radius (fruitInQueue s)) 5
          else real (width cv) / 2),
     y = real (height cv) - 50, vx = 0, vy = 0, angle = 0\<rparr>"
  by (simp add: prepareNextFruit_def Let_def)

text \<open>
  C4: spawn placement produces a pending body of the queued tier at \<open>y = height - 50\<close>
  with zero velocity and zero rotation. The overlap test is the Euclidean one (centre
  distance strictly below the sum of the radii). If the circle centred at \<open>width/2\<close>
  overlaps no active body, \<open>x = width/2\<close>. If it does, \<open>x\<close> is the candidate
  \<open>width/2 \<plusminus> 5k\<close> of the smallest \<open>k \<ge> 1\<close> that has an acceptable candidate, the right
  one if it is acceptable and else the left one; and if no \<open>k \<ge> 1\<close> has an acceptable
  candidate, \<open>x\<close> falls back to \<open>width/2\<close>, overlap permitted. (The radius of the queued
  tier is not negative: catalog radii are positive.)
\<close>

theorem spawn_placement:
  assumes r: "0 \<le> radius (fruitInQueue s)"
  shows "\<exists>f. fruitToLaunch (prepareNextFruit cv u s) = Some f
    \<and> y f = real (height cv) - 50 \<and> vx f = 0 \<and> vy f = 0 \<and> angle f = 0
    \<and> typeIndex f = typeIndex (fruitInQueue s) \<and> radius f = radius (fruitInQueue s)
    \<and> (isOverlapping (fruits s) (real (width cv) / 2) (real (height cv) - 50) (radius f)
          \<longleftrightarrow> (\<exists>g \<in> set (fruits s).
                sqrt ((real (width cv) / 2 - x g)\<^sup>2 + (real (height cv) - 50 - y g)\<^sup>2)
                  < radius f + radius g))
    \<and> (\<not> isOverlapping (fruits s) (real (width cv) / 2) (real (height cv) - 50) (radius f)
          \<longrightarrow> x f = real (width cv) / 2)
    \<and> (isOverlapping (fruits s) (real (width cv) / 2) (real (height cv) - 50) (radius f)
          \<longrightarrow>
          ((\<forall>k. 1 \<le> k \<longrightarrow>
              \<not> acceptable cv (fruits s) (real (height cv) - 50) (radius f) (real (width cv) / 2 + 5 * real k)
              \<and> \<not> acceptable cv (fruits s) (real (height cv) - 50) (radius f) (real (width cv) / 2 - 5 * real k))
            \<longrightarrow> x f = real (width cv) / 2)
          \<and> (\<forall>k. firstAcceptable cv (fruits s) (real (height cv) - 50) (radius f) k
              \<longrightarrow> x f =
                (if acceptable cv (fruits s) (real (height cv) - 50) (radius f) (real (width cv) / 2 + 5 * real k)
                 then real (width cv) / 2 + 5 * real k else real (width cv) / 2 - 5 * real k)))"
proof -
  define f where "f = \<lparr>rank = rank (fruitInQueue s), radius = radius (fruitInQueue s),
     color = color (fruitInQueue s), name = name (fruitInQueue s),
     score = score (fruitInQueue s), typeIndex = typeIndex (fruitInQueue s),
     x = (if isOverlapping (fruits s) (real (width cv) / 2) (real (height cv) - 50) (radius (fruitInQueue s))
          then searchLoop cv (fruits s) (real (width cv) / 2) (real (height cv) - 50) (radius (fruitInQueue s)) 5
          else real (width cv) / 2),
     y = real (height cv) - 50, vx = 0, vy = 0, angle = 0\<rparr>"
  have p: "fruitToLaunch (prepareNextFruit cv u s) = Some f"
    unfolding f_def by (rule prepareNextFruit_pending)
  have flds: "y f = real (height cv) - 50" "vx f = 0" "vy f = 0" "angle f = 0"
    "typeIndex f = typeIndex (fruitInQueue s)" "radius f = radius (fruitInQueue s)"
    by (simp_all add: f_def)
  have xf: "x f = (if isOverlapping (fruits s) (real (width cv) / 2) (real (height cv) - 50) (radius f)
          then searchLoop cv (fruits s) (real (width cv) / 2) (real (height cv) - 50) (radius f) 5
          else real (width cv) / 2)"
    by (simp add: f_def)
  have rf: "0 \<le> radius f" using r flds by simp
  have centre: "x f = real (width cv) / 2"
    if "\<not> isOverlapping (fruits s) (real (width cv) / 2) (real (height cv) - 50) (radius f)"
    using that xf by simp
  have fallback: "x f = real (width cv) / 2"
    if ov: "isOverlapping (fruits s) (real (width cv) / 2) (real (height cv) - 50) (radius f)"
      and none: "\<forall>k. 1 \<le> k \<longrightarrow>
        \<not> acceptable cv (fruits s) (real (height cv) - 50) (radius f) (real (width cv) / 2 + 5 * real k)
        \<and> \<not> acceptable cv (fruits s) (real (height cv) - 50) (radius f) (real (width cv) / 2 - 5 * real k)"
    using xf ov searchLoop_none_acceptable [OF rf none] by simp
  have found: "x f =
      (if acceptable cv (fruits s) (real (height cv) - 50) (radius f) (real (width cv) / 2 + 5 * real k)
       then real (width cv) / 2 + 5 * real k else real (width cv) / 2 - 5 * real k)"
    if ov: "isOverlapping (fruits s) (real (width cv) / 2) (real (height cv) - 50) (radius f)"
      and k: "firstAcceptable cv (fruits s) (real (height cv) - 50) (radius f) k" for k
  proof -
    from k have "searchLoop cv (fruits s) (real (width cv) / 2) (real (height cv) - 50) (radius f) 5 =
      (if acceptable cv (fruits s) (real (height cv) - 50) (radius f) (real (width cv) / 2 + 5 * real k)
       then real (width cv) / 2 + 5 * real k else real (width cv) / 2 - 5 * real k)"
      unfolding firstAcceptable_def
      by (intro searchLoop_first_acceptable [OF rf]) blast+
    with xf ov show ?thesis by simp
  qed
  from p flds centre fallback found isOverlapping_iff
  show ?thesis by blast
qed

lemma occupiedCentre_overlap:
  "isOverlapping (fruits occupiedCentre) (200 + d) 550 15 \<longleftrightarrow> \<bar>d\<bar> < 30"
  by (simp add: occupiedCentre_def gameOf_def bodyOf_def fruitTypes_def Let_def)

theorem spawn_placement_witness:
  "0 \<le> radius (fruitInQueue occupiedCentre)
   \<and> isOverlapping (fruits occupiedCentre) (real (width field) / 2) (real (height field) - 50)
        (radius (fruitInQueue occupiedCentre))
   \<and> (\<exists>f. fruitToLaunch (prepareNextFruit field (1 / 2) occupiedCentre) = Some f
        \<and> x f = 230 \<and> y f = 550 \<and> vx f = 0 \<and> vy f = 0 \<and> angle f = 0)"
proof -
  have q: "radius (fruitInQueue occupiedCentre) = 15"
    by (simp add: occupiedCentre_def gameOf_def generateRandomFruit_def fruitTypes_def)
  have wh: "real (width field) / 2 = 200" "real (height field) - 50 = 550"
    by (simp_all add: field_def)
  have ov: "isOverlapping (fruits occupiedCentre) 200 550 15"
    using occupiedCentre_overlap [of 0] by simp
  have right: "isOverlapping (fruits occupiedCentre) (200 + 5 * real m) 550 15 \<longleftrightarrow> m < 6" for m
    using occupiedCentre_overlap [of "5 * real m"] by auto
  have left: "isOverlapping (fruits occupiedCentre) (200 - 5 * real m) 550 15 \<longleftrightarrow> m < 6" for m
    using occupiedCentre_overlap [of "- (5 * real m)"] by auto
  have first: "\<forall>m. 1 \<le> m \<and> m < 6 \<longrightarrow>
      \<not> acceptable field (fruits occupiedCentre) 550 15 (200 + 5 * real m)
      \<and> \<not> acceptable field (fruits occupiedCentre) 550 15 (200 - 5 * real m)"
    by (simp add: acceptable_def right left)
  have acc: "acceptable field (fruits occupiedCentre) 550 15 (200 + 5 * real 6)"
    unfolding acceptable_def right by (simp add: field_def)
  have fa: "firstAcceptable field (fruits occupiedCentre) 550 15 6"
    unfolding firstAcceptable_def wh using first acc by simp
  from spawn_placement [of occupiedCentre field "1 / 2"] q
  obtain f where f: "fruitToLaunch (prepareNextFruit field (1 / 2) occupiedCentre) = Some f"
    "y f = real (height field) - 50" "vx f = 0" "vy f = 0" "angle f = 0"
    "radius f = radius (fruitInQueue occupiedCentre)"
    and found: "isOverlapping (fruits occupiedCentre) (real (width field) / 2) (real (height field) - 50) (radius f)
      \<longrightarrow> (\<forall>k. firstAcceptable field (fruits occupiedCentre) (real (height field) - 50) (radius f) k
              \<longrightarrow> x f =
                (if acceptable field (fruits occupiedCentre) (real (height field) - 50) (radius f)
                      (real (width field) / 2 + 5 * real k)
                 then real (width field) / 2 + 5 * real k else real (width field) / 2 - 5 * real k))"
    by force
  from found [unfolded wh f(6) q] ov fa
  have "x f = (if acceptable field (fruits occupiedCentre) 550 15 (200 + 5 * real 6)
                     then 200 + 5 * real 6 else 200 - 5 * real 6)"
    by blast
  with acc have "x f = 230" by simp
  with f q ov wh show ?thesis by auto
qed

lemma searchFuel_enough:
  "0 < n \<Longrightarrow> max cx (real (width cv) - cx) < off + 5 * real n
    \<Longrightarrow> searchFuel n cv fs cx cy r off = Some (searchLoop cv fs cx cy r off)"
proof (induction n arbitrary: off)
  case 0
  then show ?case by simp
next
  case (Suc n)
  show ?case
  proof (cases "cx + off + r < real (width cv) \<and> \<not> isOverlapping fs (cx + off) cy r")
    case True
    then have "searchLoop cv fs cx cy r off = cx + off"
      by (simp add: searchLoop_right)
    with True show ?thesis by simp
  next
    case noR: False
    show ?thesis
    proof (cases "cx - off - r > 0 \<and> \<not> isOverlapping fs (cx - off) cy r")
      case True
      with noR have "searchLoop cv fs cx cy r off = cx - off"
        by (simp add: searchLoop_left)
      with noR True show ?thesis by (auto simp: Let_def)
    next
      case noL: False
      note nx = searchLoop_next [OF noR noL]
      have fu: "searchFuel (Suc n) cv fs cx cy r off =
        (if cx - (off + 5) < 0 \<and> cx + (off + 5) > real (width cv) then Some cx
         else searchFuel n cv fs cx cy r (off + 5))"
        using noR noL by (auto simp: Let_def)
      show ?thesis
      proof (cases "cx - (off + 5) < 0 \<and> cx + (off + 5) > real (width cv)")
        case True
        then show ?thesis unfolding nx fu by simp
      next
        case False
        then have "off + 5 \<le> max cx (real (width cv) - cx)" by (auto simp: max_def)
        with Suc.prems(2) have "off + 5 < off + 5 * real (Suc n)" by linarith
        then have "0 < n" by simp
        moreover have "max cx (real (width cv) - cx) < off + 5 + 5 * real n"
          using Suc.prems(2) by simp
        ultimately have "searchFuel n cv fs cx cy r (off + 5) = Some (searchLoop cv fs cx cy r (off + 5))"
          by (rule Suc.IH)
        with False show ?thesis unfolding nx fu by auto
      qed
    qed
  qed
qed

text \<open>
  C9: the spawn-placement search loop terminates for every canvas width and every
  collection of active bodies: the offset grows by 5 per iteration, so within
  \<open>\<lfloor>width / 10\<rfloor> + 1\<close> iterations the loop has accepted a candidate or has passed both
  boundaries and left through the fallback branch, with the result that
  \<^verbatim>\<open>prepareNextFruit\<close> uses.
\<close>

theorem spawn_search_terminates:
  "searchFuel (nat \<lfloor>real (width cv) / 10\<rfloor> + 1) cv fs (real (width cv) / 2) cy r 5 =
    Some (searchLoop cv fs (real (width cv) / 2) cy r 5)"
proof (rule searchFuel_enough)
  show "0 < nat \<lfloor>real (width cv) / 10\<rfloor> + 1" by simp
  define w where "w = real (width cv)"
  define q where "q = \<lfloor>w / 10\<rfloor>"
  have q0: "0 \<le> q" by (simp add: q_def w_def)
  have "w / 10 < real_of_int q + 1" unfolding q_def by (rule real_of_int_floor_add_one_gt)
  moreover have "real (nat q) = real_of_int q" using q0 by simp
  ultimately have "w / 10 < real (nat q) + 1" by simp
  moreover have "a / 10 < t + 1 \<Longrightarrow> a / 2 < 5 + 5 * (t + 1)" for a t :: real
    by simp
  ultimately have "w / 2 < 5 + 5 * (real (nat q) + 1)" by blast
  moreover have "max (w / 2) (w - w / 2) = w / 2" by simp
  moreover have "real (nat q + 1) = real (nat q) + 1" by simp
  ultimately show "max (real (width cv) / 2) (real (width cv) - real (width cv) / 2)
      < 5 + 5 * real (nat \<lfloor>real (width cv) / 10\<rfloor> + 1)"
    unfolding w_def q_def by (simp only:)
qed

end
